theory Spec2Isabelle
  imports Main "HOL-Library.Word" "HOL-Library.AList" "HOL-Library.Multiset"
    "HOL-Library.Char_ord" "HOL-Library.List_Lexorder"
begin

unbundle bit_operations_syntax

section \<open>Go values as seen through reflection\<close>

text \<open>
  \<^verbatim>\<open>StructToM\<close> receives an \<^verbatim>\<open>interface{}\<close>: either nil or a dynamic type together
  with a value of that type. A type is the tree that \<^verbatim>\<open>reflect.Type\<close> exposes: its
  kind, and for a struct its fields in declaration order, each with its name, the
  value of \<^verbatim>\<open>Tag.Get("json")\<close> (the empty string when the field has no json tag) and
  its type. Struct types nest by value only finitely (the compiler rejects a struct
  that contains itself by value), so the tree is finite.

  The universe modelled: bool, int, float64 (as its 64 IEEE bits), string (bytes),
  pointers, slices, maps with string keys, the empty interface, channels (a kind the
  JSON encoder does not support) and structs without embedded fields. Pointer values
  are trees (nil or the pointee), so cyclic heaps are outside the model.
\<close>

datatype kind = KBool | KInt | KFloat64 | KString | KPtr | KSlice | KMap | KInterface | KChan | KStruct

datatype gtype =
    TBool
  | TInt
  | TFloat64
  | TString
  | TPtr gtype
  | TSlice gtype
  | TMap gtype
  | TInterface
  | TChan gtype
  | TStruct "field list"
and field = Field (fname: string) (ftag: string) (ftype: gtype)

datatype gval =
    VBool bool
  | VInt "64 word"
  | VFloat64 "64 word"
  | VString string
  | VPtr "gval option"
  | VSlice "gval list option"
  | VMap "(string \<times> gval) list option"
  | VIface "(gtype \<times> gval) option"
  | VChan "nat option"
  | VStruct "gval list"

text \<open>An \<^verbatim>\<open>interface{}\<close> value: nil, or a dynamic type with its value.\<close>

type_synonym iface = "(gtype \<times> gval) option"

fun Kind :: "gtype \<Rightarrow> kind" where
  "Kind TBool = KBool"
| "Kind TInt = KInt"
| "Kind TFloat64 = KFloat64"
| "Kind TString = KString"
| "Kind (TPtr _) = KPtr"
| "Kind (TSlice _) = KSlice"
| "Kind (TMap _) = KMap"
| "Kind TInterface = KInterface"
| "Kind (TChan _) = KChan"
| "Kind (TStruct _) = KStruct"

text \<open>\<^verbatim>\<open>reflect.Zero(t)\<close>: the zero value of a type.\<close>

fun Zero :: "gtype \<Rightarrow> gval"
  and Zero_fields :: "field list \<Rightarrow> gval list" where
  "Zero TBool = VBool False"
| "Zero TInt = VInt 0"
| "Zero TFloat64 = VFloat64 0"
| "Zero TString = VString []"
| "Zero (TPtr _) = VPtr None"
| "Zero (TSlice _) = VSlice None"
| "Zero (TMap _) = VMap None"
| "Zero TInterface = VIface None"
| "Zero (TChan _) = VChan None"
| "Zero (TStruct fs) = VStruct (Zero_fields fs)"
| "Zero_fields [] = []"
| "Zero_fields (Field n tg t # fs) = Zero t # Zero_fields fs"

text \<open>
  \<^verbatim>\<open>Value.Interface()\<close>: the value boxed as \<^verbatim>\<open>interface{}\<close>. A value of interface
  kind yields what it holds (nil for the nil interface); any other value is boxed with
  its own type.
\<close>

fun Interface :: "gtype \<Rightarrow> gval \<Rightarrow> iface" where
  "Interface TInterface (VIface d) = d"
| "Interface t v = Some (t, v)"

subsection \<open>\<^verbatim>\<open>reflect.DeepEqual\<close>\<close>

text \<open>
  float64 comparison is IEEE equality on the bits: a NaN equals nothing, the two zeros
  are equal, any other two values are equal when their bits are.
\<close>

definition float64_isNaN :: "64 word \<Rightarrow> bool" where
  "float64_isNaN w =
     (w AND 0x7FF0000000000000 = 0x7FF0000000000000 \<and> w AND 0x000FFFFFFFFFFFFF \<noteq> 0)"

definition float64_isInf :: "64 word \<Rightarrow> bool" where
  "float64_isInf w = (w AND 0x7FFFFFFFFFFFFFFF = 0x7FF0000000000000)"

definition float64_eq :: "64 word \<Rightarrow> 64 word \<Rightarrow> bool" where
  "float64_eq a b =
     (\<not> float64_isNaN a \<and> \<not> float64_isNaN b \<and>
      (a = b \<or> (a AND 0x7FFFFFFFFFFFFFFF = 0 \<and> b AND 0x7FFFFFFFFFFFFFFF = 0)))"

text \<open>
  \<^verbatim>\<open>deepValueEqual\<close> on two values of one type. Nil and non-nil never compare equal;
  pointers, slices and interfaces compare what they hold; maps compare entry by entry;
  channels compare by identity; structs compare field by field.
\<close>

fun deepValueEqual :: "gval \<Rightarrow> gval \<Rightarrow> bool"
  and deepValueEqual_list :: "gval list \<Rightarrow> gval list \<Rightarrow> bool"
  and deepValueEqual_map :: "(string \<times> gval) list \<Rightarrow> (string \<times> gval) list \<Rightarrow> bool" where
  "deepValueEqual (VBool a) w = (case w of VBool b \<Rightarrow> a = b | _ \<Rightarrow> False)"
| "deepValueEqual (VInt a) w = (case w of VInt b \<Rightarrow> a = b | _ \<Rightarrow> False)"
| "deepValueEqual (VFloat64 a) w = (case w of VFloat64 b \<Rightarrow> float64_eq a b | _ \<Rightarrow> False)"
| "deepValueEqual (VString a) w = (case w of VString b \<Rightarrow> a = b | _ \<Rightarrow> False)"
| "deepValueEqual (VPtr None) w = (case w of VPtr None \<Rightarrow> True | _ \<Rightarrow> False)"
| "deepValueEqual (VPtr (Some a)) w =
     (case w of VPtr (Some b) \<Rightarrow> deepValueEqual a b | _ \<Rightarrow> False)"
| "deepValueEqual (VSlice None) w = (case w of VSlice None \<Rightarrow> True | _ \<Rightarrow> False)"
| "deepValueEqual (VSlice (Some as)) w =
     (case w of VSlice (Some bs) \<Rightarrow> deepValueEqual_list as bs | _ \<Rightarrow> False)"
| "deepValueEqual (VMap None) w = (case w of VMap None \<Rightarrow> True | _ \<Rightarrow> False)"
| "deepValueEqual (VMap (Some as)) w =
     (case w of VMap (Some bs) \<Rightarrow> length as = length bs \<and> deepValueEqual_map as bs
      | _ \<Rightarrow> False)"
| "deepValueEqual (VIface None) w = (case w of VIface None \<Rightarrow> True | _ \<Rightarrow> False)"
| "deepValueEqual (VIface (Some (t1, a))) w =
     (case w of VIface (Some (t2, b)) \<Rightarrow> t1 = t2 \<and> deepValueEqual a b | _ \<Rightarrow> False)"
| "deepValueEqual (VChan a) w = (case w of VChan b \<Rightarrow> a = b | _ \<Rightarrow> False)"
| "deepValueEqual (VStruct as) w =
     (case w of VStruct bs \<Rightarrow> deepValueEqual_list as bs | _ \<Rightarrow> False)"
| "deepValueEqual_list [] bs = (bs = [])"
| "deepValueEqual_list (a # as) bs =
     (case bs of [] \<Rightarrow> False | b # bs' \<Rightarrow> deepValueEqual a b \<and> deepValueEqual_list as bs')"
| "deepValueEqual_map [] bs = True"
| "deepValueEqual_map ((k, a) # as) bs =
     ((case map_of bs k of None \<Rightarrow> False | Some b \<Rightarrow> deepValueEqual a b)
      \<and> deepValueEqual_map as bs)"

text \<open>
  \<^verbatim>\<open>reflect.DeepEqual(x, y)\<close>: when either side is nil both must be; otherwise the
  dynamic types must be identical and the values deeply equal.
\<close>

fun DeepEqual :: "iface \<Rightarrow> iface \<Rightarrow> bool" where
  "DeepEqual None y = (y = None)"
| "DeepEqual (Some (t1, v1)) y =
     (case y of None \<Rightarrow> False | Some (t2, v2) \<Rightarrow> t1 = t2 \<and> deepValueEqual v1 v2)"

section \<open>The JSON encoder, as far as \<^verbatim>\<open>StructToM\<close> observes it\<close>

text \<open>
  \<^verbatim>\<open>encoding/json\<close> is a library of the Go distribution, not code of this repository.
  The definitions of this section follow its documented behaviour on the universe
  above: struct fields in declaration order, unexported fields and fields tagged
  \<^verbatim>\<open>"-"\<close> left out, the key taken from the tag when the tag names a valid key and
  from the field name otherwise, the \<^verbatim>\<open>omitempty\<close> option, the rule for fields that
  resolve to one key, null for nil, a string written as UTF-8 with U+FFFD in the place
  of every byte that starts no character, and the errors for channels and for NaN and
  infinite floats. A document is a tree; a number is the literal the encoder prints
  for the integer or for the float64 it was given.

  Three things are outside these definitions. Letters and digits are the ASCII ones:
  the library asks the Unicode tables whether the first character of a field name is
  upper case and whether a character of a tag is a letter or a digit. The tag option
  \<^verbatim>\<open>string\<close>, which makes the encoder write a bool, number or string field as a JSON
  string, is not read, and neither is any option other than \<^verbatim>\<open>omitempty\<close>; such an
  option changes how the value of a field is written, not whether its key is
  written. Types with their own \<^verbatim>\<open>MarshalJSON\<close> are not part of the universe. What
  is stated below about \<^verbatim>\<open>CastStruct\<close>, where the written values matter, is stated for
  fields with ASCII names and tags and no option but \<^verbatim>\<open>omitempty\<close>.
\<close>

datatype error = UnsupportedTypeError | UnsupportedValueError | UnmarshalTypeError

datatype json =
    JNull
  | JBool bool
  | JInt "64 word"
  | JFloat "64 word"
  | JString string
  | JArray "json list"
  | JObject "(string \<times> json) list"

text \<open>\<^verbatim>\<open>strings.Split(s, sep)\<close> for a separator of one byte.\<close>

fun strings_Split :: "string \<Rightarrow> char \<Rightarrow> string list" where
  "strings_Split [] sep = [[]]"
| "strings_Split (c # s) sep =
     (if c = sep then [] # strings_Split s sep
      else (case strings_Split s sep of
              [] \<Rightarrow> [[c]]
            | x # xs \<Rightarrow> (c # x) # xs))"

text \<open>
  A field is exported when its name starts with an upper-case letter (ASCII here).
\<close>

definition isUpper :: "char \<Rightarrow> bool" where
  "isUpper c = (65 \<le> (of_char c :: nat) \<and> (of_char c :: nat) \<le> 90)"

definition isLetterOrDigit :: "char \<Rightarrow> bool" where
  "isLetterOrDigit c =
     (let n = (of_char c :: nat)
      in (65 \<le> n \<and> n \<le> 90) \<or> (97 \<le> n \<and> n \<le> 122) \<or> (48 \<le> n \<and> n \<le> 57))"

definition exported :: "field \<Rightarrow> bool" where
  "exported f = (case fname f of [] \<Rightarrow> False | c # _ \<Rightarrow> isUpper c)"

text \<open>The encoder's \<^verbatim>\<open>isValidTag\<close>: a key given by a tag is used only when valid.\<close>

definition isValidTag :: "string \<Rightarrow> bool" where
  "isValidTag s =
     (s \<noteq> [] \<and> list_all (\<lambda>c. c \<in> set ''!#$%&()*+-./:;<=>?@[]^_{|}~ '' \<or> isLetterOrDigit c) s)"

text \<open>
  What the encoder makes of one field on its own: nothing when the field is
  unexported or its tag is \<^verbatim>\<open>"-"\<close>, otherwise the key, whether the key came from the
  tag, and whether \<^verbatim>\<open>omitempty\<close> is among the options.
\<close>

definition json_field :: "field \<Rightarrow> (string \<times> bool \<times> bool) option" where
  "json_field f =
     (if \<not> exported f \<or> ftag f = ''-'' then None
      else let parts = strings_Split (ftag f) CHR '','';
               name = (if isValidTag (hd parts) then hd parts else []);
               omitEmpty = (''omitempty'' \<in> set (tl parts))
           in Some (if name = [] then fname f else name, name \<noteq> [], omitEmpty))"

text \<open>
  When several fields of a struct resolve to one key, the encoder keeps the single
  tagged one among them if there is exactly one, and none of them otherwise.
\<close>

definition dominant :: "field list \<Rightarrow> field \<Rightarrow> bool" where
  "dominant fs f =
     (case json_field f of
        None \<Rightarrow> False
      | Some (name, tagged, _) \<Rightarrow>
          (let cands = filter (\<lambda>g. case json_field g of None \<Rightarrow> False
                                     | Some (name', _, _) \<Rightarrow> name' = name) fs
           in length cands = 1 \<or>
              (tagged \<and> length (filter (\<lambda>g. case json_field g of None \<Rightarrow> False
                                               | Some (_, tagged', _) \<Rightarrow> tagged') cands) = 1)))"

text \<open>
  \<^verbatim>\<open>utf8.DecodeRuneInString\<close>, as far as the encoder uses it: the number of bytes of
  the character at the head of a string, and nothing when the head starts no
  well-formed character (the library then returns \<^verbatim>\<open>RuneError\<close> with size one).
\<close>

definition in_range :: "nat \<Rightarrow> nat \<Rightarrow> char \<Rightarrow> bool" where
  "in_range lo hi c = (lo \<le> (of_char c :: nat) \<and> (of_char c :: nat) \<le> hi)"

definition DecodeRune_size :: "string \<Rightarrow> nat option" where
  "DecodeRune_size s =
     (case s of
        [] \<Rightarrow> None
      | b0 # r \<Rightarrow>
          let n = (of_char b0 :: nat) in
          if n < 0x80 then Some 1
          else if 0xC2 \<le> n \<and> n \<le> 0xDF then
            (case r of
               b1 # _ \<Rightarrow> if in_range 0x80 0xBF b1 then Some 2 else None
             | _ \<Rightarrow> None)
          else if 0xE0 \<le> n \<and> n \<le> 0xEF then
            (case r of
               b1 # b2 # _ \<Rightarrow>
                 if in_range (if n = 0xE0 then 0xA0 else 0x80) (if n = 0xED then 0x9F else 0xBF) b1
                    \<and> in_range 0x80 0xBF b2
                 then Some 3 else None
             | _ \<Rightarrow> None)
          else if 0xF0 \<le> n \<and> n \<le> 0xF4 then
            (case r of
               b1 # b2 # b3 # _ \<Rightarrow>
                 if in_range (if n = 0xF0 then 0x90 else 0x80) (if n = 0xF4 then 0x8F else 0xBF) b1
                    \<and> in_range 0x80 0xBF b2 \<and> in_range 0x80 0xBF b3
                 then Some 4 else None
             | _ \<Rightarrow> None)
          else None)"

text \<open>
  The content of the JSON string that the encoder's \<^verbatim>\<open>appendString\<close> writes for a Go
  string: the characters of the string, and the three bytes of U+FFFD for a byte that
  starts none. The first argument counts the bytes of the current character that are
  still to be copied. \<^verbatim>\<open>utf8.ValidString\<close> holds of the strings that are written
  unchanged.
\<close>

fun appendString :: "nat \<Rightarrow> string \<Rightarrow> string" where
  "appendString k [] = []"
| "appendString (Suc k) (c # cs) = c # appendString k cs"
| "appendString 0 (c # cs) =
     (case DecodeRune_size (c # cs) of
        None \<Rightarrow> CHR 0xEF # CHR 0xBF # CHR 0xBD # appendString 0 cs
      | Some n \<Rightarrow> c # appendString (n - 1) cs)"

fun ValidString :: "nat \<Rightarrow> string \<Rightarrow> bool" where
  "ValidString k [] = True"
| "ValidString (Suc k) (c # cs) = ValidString k cs"
| "ValidString 0 (c # cs) =
     (case DecodeRune_size (c # cs) of
        None \<Rightarrow> False
      | Some n \<Rightarrow> ValidString (n - 1) cs)"

text \<open>The encoder's \<^verbatim>\<open>isEmptyValue\<close>, which decides \<^verbatim>\<open>omitempty\<close>.\<close>

fun isEmptyValue :: "gval \<Rightarrow> bool" where
  "isEmptyValue (VBool b) = (\<not> b)"
| "isEmptyValue (VInt i) = (i = 0)"
| "isEmptyValue (VFloat64 w) = float64_eq w 0"
| "isEmptyValue (VString s) = (s = [])"
| "isEmptyValue (VPtr p) = (p = None)"
| "isEmptyValue (VSlice xs) = (case xs of None \<Rightarrow> True | Some ys \<Rightarrow> ys = [])"
| "isEmptyValue (VMap m) = (case m of None \<Rightarrow> True | Some kvs \<Rightarrow> kvs = [])"
| "isEmptyValue (VIface d) = (d = None)"
| "isEmptyValue (VChan c) = False"
| "isEmptyValue (VStruct vs) = False"

text \<open>
  The encoder proper. The first error met in the order of traversal is the one
  returned. A map is printed with its keys sorted; the value of a map is kept in
  that order here.
\<close>

fun encode :: "gtype \<Rightarrow> gval \<Rightarrow> error + json"
  and encode_list :: "gtype \<Rightarrow> gval list \<Rightarrow> error + json list"
  and encode_map :: "gtype \<Rightarrow> (string \<times> gval) list \<Rightarrow> error + (string \<times> json) list"
  and encode_fields :: "field list \<Rightarrow> field list \<Rightarrow> gval list \<Rightarrow> error + (string \<times> json) list"
where
  "encode t (VBool b) = Inr (JBool b)"
| "encode t (VInt i) = Inr (JInt i)"
| "encode t (VFloat64 w) =
     (if float64_isNaN w \<or> float64_isInf w then Inl UnsupportedValueError else Inr (JFloat w))"
| "encode t (VString s) = Inr (JString (appendString 0 s))"
| "encode t (VPtr None) = Inr JNull"
| "encode t (VPtr (Some v)) = (case t of TPtr t' \<Rightarrow> encode t' v | _ \<Rightarrow> Inl UnsupportedTypeError)"
| "encode t (VSlice None) = Inr JNull"
| "encode t (VSlice (Some vs)) =
     (case t of
        TSlice t' \<Rightarrow> (case encode_list t' vs of Inl e \<Rightarrow> Inl e | Inr js \<Rightarrow> Inr (JArray js))
      | _ \<Rightarrow> Inl UnsupportedTypeError)"
| "encode t (VMap None) = Inr JNull"
| "encode t (VMap (Some kvs)) =
     (case t of
        TMap t' \<Rightarrow> (case encode_map t' kvs of Inl e \<Rightarrow> Inl e | Inr js \<Rightarrow> Inr (JObject js))
      | _ \<Rightarrow> Inl UnsupportedTypeError)"
| "encode t (VIface None) = Inr JNull"
| "encode t (VIface (Some (t', v))) = encode t' v"
| "encode t (VChan c) = Inl UnsupportedTypeError"
| "encode t (VStruct vs) =
     (case t of
        TStruct fs \<Rightarrow> (case encode_fields fs fs vs of Inl e \<Rightarrow> Inl e | Inr js \<Rightarrow> Inr (JObject js))
      | _ \<Rightarrow> Inl UnsupportedTypeError)"
| "encode_list t [] = Inr []"
| "encode_list t (v # vs) =
     (case encode t v of
        Inl e \<Rightarrow> Inl e
      | Inr j \<Rightarrow> (case encode_list t vs of Inl e \<Rightarrow> Inl e | Inr js \<Rightarrow> Inr (j # js)))"
| "encode_map t [] = Inr []"
| "encode_map t ((k, v) # kvs) =
     (case encode t v of
        Inl e \<Rightarrow> Inl e
      | Inr j \<Rightarrow>
          (case encode_map t kvs of
             Inl e \<Rightarrow> Inl e
           | Inr js \<Rightarrow> Inr ((appendString 0 k, j) # js)))"
| "encode_fields all [] vs = Inr []"
| "encode_fields all (f # fs) [] = Inr []"
| "encode_fields all (f # fs) (v # vs) =
     (case (if dominant all f then json_field f else None) of
        None \<Rightarrow> encode_fields all fs vs
      | Some (name, tagged, omitEmpty) \<Rightarrow>
          if omitEmpty \<and> isEmptyValue v then encode_fields all fs vs
          else (case encode (ftype f) v of
                  Inl e \<Rightarrow> Inl e
                | Inr j \<Rightarrow> (case encode_fields all fs vs of
                              Inl e \<Rightarrow> Inl e
                            | Inr js \<Rightarrow> Inr ((name, j) # js))))"

text \<open>\<^verbatim>\<open>json.Marshal(source)\<close>: nil encodes as null.\<close>

fun json_Marshal :: "iface \<Rightarrow> error + json" where
  "json_Marshal None = Inr JNull"
| "json_Marshal (Some (t, v)) = encode t v"

text \<open>
  \<^verbatim>\<open>json.Unmarshal(jsonSource, &data)\<close> with \<^verbatim>\<open>data\<close> a nil
  \<^verbatim>\<open>map[string]interface{}\<close>: an object fills the map (the decoded values are kept as
  documents; \<^verbatim>\<open>StructToM\<close> never looks at them), null leaves the map nil, and any
  other document is a type error.
\<close>

fun json_Unmarshal_map :: "json \<Rightarrow> error + (string \<times> json) list" where
  "json_Unmarshal_map (JObject kvs) = Inr kvs"
| "json_Unmarshal_map JNull = Inr []"
| "json_Unmarshal_map _ = Inl UnmarshalTypeError"

section \<open>\<^verbatim>\<open>StructToM\<close>\<close>

datatype 'a result = Ok 'a | Error error | Panic

text \<open>
  \<^verbatim>\<open>bson.M\<close> is a Go map from strings to \<^verbatim>\<open>interface{}\<close>: here an association list
  with one entry for each key, read with \<^const>\<open>map_of\<close>. A \<^verbatim>\<open>range\<close> over a Go map
  visits the entries in an order the language leaves open; the order is a parameter.
\<close>

type_synonym bsonM = "(string \<times> iface) list"

type_synonym range_order = "bsonM \<Rightarrow> bsonM"

definition jsonKey_of :: "field \<Rightarrow> string" where
  "jsonKey_of fieldType =
     (let tagValue = ftag fieldType;
          jsonKey = hd (strings_Split tagValue CHR '','')
      in if jsonKey = [] then fname fieldType else jsonKey)"

function StructToM :: "range_order \<Rightarrow> iface \<Rightarrow> bsonM result"
  and StructToM_loop ::
    "range_order \<Rightarrow> (string \<times> json) list \<Rightarrow> field list \<Rightarrow> gval list \<Rightarrow> bsonM \<Rightarrow> bsonM result"
where
  "StructToM ord source =
     (case json_Marshal source of
        Inl err \<Rightarrow> Error err
      | Inr jsonSource \<Rightarrow>
          (case json_Unmarshal_map jsonSource of
             Inl err \<Rightarrow> Error err
           | Inr data \<Rightarrow>
               (case source of
                  Some (TStruct fs, VStruct vs) \<Rightarrow> StructToM_loop ord data fs vs []
                | _ \<Rightarrow> Panic)))"
| "StructToM_loop ord data [] vs result = Ok result"
| "StructToM_loop ord data (fieldType # fs) [] result = Panic"
| "StructToM_loop ord data (fieldType # fs) (fieldValue # vs) result =
     (let jsonKey = jsonKey_of fieldType in
      if map_of data jsonKey \<noteq> None then
        if \<not> exported fieldType then Panic
        else if DeepEqual (Interface (ftype fieldType) (Zero (ftype fieldType)))
                  (Interface (ftype fieldType) fieldValue)
        then StructToM_loop ord data fs vs result
        else if Kind (ftype fieldType) = KStruct then
          (case StructToM ord (Some (ftype fieldType, fieldValue)) of
             Error err \<Rightarrow> Error err
           | Panic \<Rightarrow> Panic
           | Ok valueMap \<Rightarrow>
               StructToM_loop ord data fs vs
                 (fold (\<lambda>(valueKey, valueValue).
                          AList.update (jsonKey @ ''.'' @ valueKey) valueValue)
                    (ord valueMap) result))
        else StructToM_loop ord data fs vs
               (AList.update jsonKey (Interface (ftype fieldType) fieldValue) result)
      else StructToM_loop ord data fs vs result)"
  by pat_completeness auto
termination
proof -
  have sz: "2 * size (ftype f) < Suc (Suc (Suc (2 * size f + n)))" for f :: field and n
    by (cases f) simp
  show ?thesis
    by (relation "measure (\<lambda>x. case x of
           Inl (ord, source) \<Rightarrow> (case source of None \<Rightarrow> 0 | Some (t, v) \<Rightarrow> 2 * size t)
         | Inr (ord, data, fs, vs, result) \<Rightarrow> 2 * size_list size fs + 1)")
      (auto simp: sz)
qed



section \<open>The JSON decoder and \<^verbatim>\<open>CastStruct\<close>\<close>

text \<open>
  \<^verbatim>\<open>CastStruct\<close> encodes its argument and decodes the document into a zero value
  of the destination type. The decoder is once more the library's; the definitions
  follow its documented behaviour on the universe above: null sets a pointer, slice,
  map or interface to nil and leaves any other value as it is; a pointer is allocated
  when needed; the empty interface receives the generic value (a number becomes a
  float64); the key of an object is matched with the keys of the struct's fields
  (those the encoder keeps), exactly at first and without regard to case otherwise,
  and a key that matches no field is passed over; a document that does not fit the
  type leaves the value as it is and is a type error, after which decoding goes on,
  and the first error is the one returned. The documents decoded are those the
  encoder has written, so their strings are well-formed UTF-8; keys are compared
  without regard to case for the ASCII letters only. The capacity of a slice is not
  modelled (an element past the current length starts from the zero value), and an
  interface of the destination is not taken to hold a pointer.

  A number literal printed for an integer is read back exactly by an integer, and
  rounded to the nearest float64 (ties to even) by a float64; one printed for a
  float64 is read back exactly by a float64, and by an integer as the integer that
  the literal denotes, when the literal has neither fraction nor exponent and the
  integer fits.
\<close>

fun bit_length :: "int \<Rightarrow> nat" where
  "bit_length n = (if n \<le> 0 then 0 else Suc (bit_length (n div 2)))"

declare bit_length.simps [simp del]

definition float64_of_int :: "int \<Rightarrow> 64 word" where
  "float64_of_int i =
     (if i = 0 then 0
      else
        let a = \<bar>i\<bar>;
            e = bit_length a - 1;
            (m, e') =
              (if e \<le> 52 then (a * 2 ^ (52 - e), e)
               else
                 let sh = e - 52;
                     q = a div 2 ^ sh;
                     r = a mod 2 ^ sh;
                     half = 2 ^ (sh - 1);
                     q' = (if half < r \<or> (r = half \<and> odd q) then q + 1 else q)
                 in if q' = 2 ^ 53 then (2 ^ 52, e + 1) else (q', e));
            sign = (if i < 0 then 2 ^ 63 else 0)
        in word_of_int (sign + (int e' + 1023) * 2 ^ 52 + (m - 2 ^ 52)))"

text \<open>
  The literal that the encoder prints for a float64 has the fewest digits that read
  back as the same float64, and among the literals with so many digits it is the
  nearest to the value. For a float64 whose value is a whole number \<open>z\<close> the search
  below goes through the powers of ten from above: with \<open>lo\<close> and \<open>hi\<close> the multiples
  of the power next to \<open>z\<close>, the first power for which one of them reads back as the
  float64 gives the literal.
\<close>

fun shortest_decimal :: "nat \<Rightarrow> 64 word \<Rightarrow> int \<Rightarrow> int" where
  "shortest_decimal 0 w z = z"
| "shortest_decimal (Suc k) w z =
     (let g = 10 ^ Suc k;
          lo = z - z mod g;
          hi = lo + g;
          okl = (float64_of_int lo = w);
          okh = (float64_of_int hi = w)
      in if okl \<and> (\<not> okh \<or> 2 * (z mod g) < g \<or> (2 * (z mod g) = g \<and> even (lo div g))) then lo
         else if okh then hi
         else shortest_decimal k w z)"

text \<open>
  The integer that an integer field reads from the literal of a float64: the literal
  is one of an integer when the value is a whole number below \<open>10\<^sup>2\<^sup>1\<close> (from there on
  the encoder prints an exponent, and a fraction or an exponent is refused).
\<close>

definition int_of_float64 :: "64 word \<Rightarrow> int option" where
  "int_of_float64 w =
     (let e = unat (drop_bit 52 w AND 0x7FF);
          m = uint (w AND 0xFFFFFFFFFFFFF);
          sgn = (if bit w 63 then - 1 else 1 :: int);
          a = w AND 0x7FFFFFFFFFFFFFFF
      in if e = 0 then (if m = 0 then Some 0 else None)
         else if e = 0x7FF then None
         else if 1075 \<le> e then
           (let z = (2 ^ 52 + m) * 2 ^ (e - 1075)
            in if z < 10 ^ 21 then Some (sgn * shortest_decimal 20 a z) else None)
         else if (2 ^ 52 + m) mod 2 ^ (1075 - e) = 0
              then Some (sgn * ((2 ^ 52 + m) div 2 ^ (1075 - e)))
              else None)"

text \<open>Keys are compared without regard to case through their upper-case form.\<close>

definition isLower :: "char \<Rightarrow> bool" where
  "isLower c = (97 \<le> (of_char c :: nat) \<and> (of_char c :: nat) \<le> 122)"

definition foldName :: "string \<Rightarrow> string" where
  "foldName s = map (\<lambda>c. if isLower c then char_of ((of_char c :: nat) - 32) else c) s"

text \<open>
  The key under which the encoder and the decoder know a field of a struct, if they
  keep it, and the field that a key of a document selects.
\<close>

definition kept_key :: "field list \<Rightarrow> field \<Rightarrow> string option" where
  "kept_key all f = (if dominant all f then map_option fst (json_field f) else None)"

fun find_first :: "('a \<Rightarrow> bool) \<Rightarrow> 'a list \<Rightarrow> nat option" where
  "find_first P [] = None"
| "find_first P (x # xs) = (if P x then Some 0 else map_option Suc (find_first P xs))"

definition lookup_field :: "field list \<Rightarrow> string \<Rightarrow> nat option" where
  "lookup_field fs key =
     (case find_first (\<lambda>f. kept_key fs f = Some key) fs of
        Some i \<Rightarrow> Some i
      | None \<Rightarrow>
          find_first (\<lambda>f. case kept_key fs f of None \<Rightarrow> False
                                | Some n \<Rightarrow> foldName n = foldName key) fs)"

text \<open>Storing into a map value: the entries are kept sorted by key.\<close>

fun map_store :: "string \<Rightarrow> gval \<Rightarrow> (string \<times> gval) list \<Rightarrow> (string \<times> gval) list" where
  "map_store k v [] = [(k, v)]"
| "map_store k v ((k', v') # kvs) =
     (if k = k' then (k, v) # kvs
      else if k < k' then (k, v) # (k', v') # kvs
      else (k', v') # map_store k v kvs)"

text \<open>Decoding into the empty interface.\<close>

fun valueInterface :: "json \<Rightarrow> iface"
  and arrayInterface :: "json list \<Rightarrow> gval list"
  and objectInterface :: "(string \<times> json) list \<Rightarrow> (string \<times> gval) list \<Rightarrow> (string \<times> gval) list"
where
  "valueInterface JNull = None"
| "valueInterface (JBool b) = Some (TBool, VBool b)"
| "valueInterface (JInt i) = Some (TFloat64, VFloat64 (float64_of_int (sint i)))"
| "valueInterface (JFloat w) = Some (TFloat64, VFloat64 w)"
| "valueInterface (JString s) = Some (TString, VString s)"
| "valueInterface (JArray js) = Some (TSlice TInterface, VSlice (Some (arrayInterface js)))"
| "valueInterface (JObject kvs) = Some (TMap TInterface, VMap (Some (objectInterface kvs [])))"
| "arrayInterface [] = []"
| "arrayInterface (j # js) = VIface (valueInterface j) # arrayInterface js"
| "objectInterface [] m = m"
| "objectInterface ((k, j) # kvs) m = objectInterface kvs (map_store k (VIface (valueInterface j)) m)"

definition first_error :: "error option \<Rightarrow> error option \<Rightarrow> error option" where
  "first_error e1 e2 = (case e1 of Some e \<Rightarrow> Some e | None \<Rightarrow> e2)"

text \<open>
  The decoder proper: what null does to a value, what a document does to a value of
  a type without parts, and the recursion through pointers, slices, maps and structs.
\<close>

definition decode_null :: "gtype \<Rightarrow> gval \<Rightarrow> gval" where
  "decode_null t cur =
     (case t of
        TPtr _ \<Rightarrow> VPtr None
      | TSlice _ \<Rightarrow> VSlice None
      | TMap _ \<Rightarrow> VMap None
      | TInterface \<Rightarrow> VIface None
      | _ \<Rightarrow> cur)"

definition decode_literal :: "gtype \<Rightarrow> gval \<Rightarrow> json \<Rightarrow> gval \<times> error option" where
  "decode_literal t cur j =
     (case t of
        TBool \<Rightarrow>
          (case j of JBool b \<Rightarrow> (VBool b, None) | _ \<Rightarrow> (cur, Some UnmarshalTypeError))
      | TInt \<Rightarrow>
          (case j of
             JInt i \<Rightarrow> (VInt i, None)
           | JFloat w \<Rightarrow>
               (case int_of_float64 w of
                  Some z \<Rightarrow>
                    if - (2 ^ 63) \<le> z \<and> z < 2 ^ 63 then (VInt (word_of_int z), None)
                    else (cur, Some UnmarshalTypeError)
                | None \<Rightarrow> (cur, Some UnmarshalTypeError))
           | _ \<Rightarrow> (cur, Some UnmarshalTypeError))
      | TFloat64 \<Rightarrow>
          (case j of
             JFloat w \<Rightarrow> (VFloat64 w, None)
           | JInt i \<Rightarrow> (VFloat64 (float64_of_int (sint i)), None)
           | _ \<Rightarrow> (cur, Some UnmarshalTypeError))
      | TString \<Rightarrow>
          (case j of JString s \<Rightarrow> (VString s, None) | _ \<Rightarrow> (cur, Some UnmarshalTypeError))
      | TInterface \<Rightarrow> (VIface (valueInterface j), None)
      | _ \<Rightarrow> (cur, Some UnmarshalTypeError))"

fun json_elements :: "json \<Rightarrow> json list option" where
  "json_elements (JArray js) = Some js"
| "json_elements _ = None"

fun json_members :: "json \<Rightarrow> (string \<times> json) list option" where
  "json_members (JObject kvs) = Some kvs"
| "json_members _ = None"

function decode :: "gtype \<Rightarrow> gval \<Rightarrow> json \<Rightarrow> gval \<times> error option"
  and decode_array :: "gtype \<Rightarrow> gval list \<Rightarrow> json list \<Rightarrow> gval list \<times> error option"
  and decode_map ::
    "gtype \<Rightarrow> (string \<times> gval) list \<Rightarrow> (string \<times> json) list \<Rightarrow> (string \<times> gval) list \<times> error option"
  and decode_object ::
    "field list \<Rightarrow> gval list \<Rightarrow> (string \<times> json) list \<Rightarrow> gval list \<times> error option"
where
  "decode t cur j =
     (if j = JNull then (decode_null t cur, None)
      else
        (case t of
           TPtr t' \<Rightarrow>
             (case decode t' (case cur of VPtr (Some x) \<Rightarrow> x | _ \<Rightarrow> Zero t') j of
                (v, e) \<Rightarrow> (VPtr (Some v), e))
         | TSlice t' \<Rightarrow>
             (case json_elements j of
                Some js \<Rightarrow>
                  (case decode_array t' (case cur of VSlice (Some xs) \<Rightarrow> xs | _ \<Rightarrow> []) js of
                     (vs, e) \<Rightarrow> (VSlice (Some vs), e))
              | None \<Rightarrow> (cur, Some UnmarshalTypeError))
         | TMap t' \<Rightarrow>
             (case json_members j of
                Some kvs \<Rightarrow>
                  (case decode_map t' (case cur of VMap (Some m) \<Rightarrow> m | _ \<Rightarrow> []) kvs of
                     (m', e) \<Rightarrow> (VMap (Some m'), e))
              | None \<Rightarrow> (cur, Some UnmarshalTypeError))
         | TStruct fs \<Rightarrow>
             (case json_members j of
                Some kvs \<Rightarrow>
                  (case decode_object fs (case cur of VStruct vs \<Rightarrow> vs | _ \<Rightarrow> []) kvs of
                     (vs', e) \<Rightarrow> (VStruct vs', e))
              | None \<Rightarrow> (cur, Some UnmarshalTypeError))
         | _ \<Rightarrow> decode_literal t cur j))"
| "decode_array t cur [] = ([], None)"
| "decode_array t cur (j # js) =
     (case decode t (case cur of [] \<Rightarrow> Zero t | c # _ \<Rightarrow> c) j of
        (v, e1) \<Rightarrow>
          (case decode_array t (tl cur) js of
             (vs, e2) \<Rightarrow> (v # vs, first_error e1 e2)))"
| "decode_map t m [] = (m, None)"
| "decode_map t m ((k, j) # kvs) =
     (case decode t (Zero t) j of
        (v, e1) \<Rightarrow>
          (case decode_map t (map_store k v m) kvs of
             (m', e2) \<Rightarrow> (m', first_error e1 e2)))"
| "decode_object fs vs [] = (vs, None)"
| "decode_object fs vs ((k, j) # kvs) =
     (case lookup_field fs k of
        None \<Rightarrow> decode_object fs vs kvs
      | Some i \<Rightarrow>
          if i < length vs \<and> i < length fs then
            (case decode (ftype (fs ! i)) (vs ! i) j of
               (v, e1) \<Rightarrow>
                 (case decode_object fs (vs[i := v]) kvs of
                    (vs', e2) \<Rightarrow> (vs', first_error e1 e2)))
          else decode_object fs vs kvs)"
  by pat_completeness auto
termination
proof -
  have el: "json_elements j = Some js \<Longrightarrow> size_list size js < size j" for j js
    by (cases j) simp_all
  have me: "json_members j = Some kvs \<Longrightarrow> size_list (size_prod (\<lambda>_. 0) size) kvs < size j"
    for j kvs
    by (cases j) simp_all
  show ?thesis
    by (relation "inv_image (less_than <*lex*> less_than) (\<lambda>x. case x of
           Inl (Inl (t, cur, j)) \<Rightarrow> (size j, size t)
         | Inl (Inr (t, cur, js)) \<Rightarrow> (size_list size js, 0)
         | Inr (Inl (t, m, kvs)) \<Rightarrow> (size_list (size_prod (\<lambda>_. 0) size) kvs, 0)
         | Inr (Inr (fs, vs, kvs)) \<Rightarrow> (size_list (size_prod (\<lambda>_. 0) size) kvs, 0))")
      (auto dest: el me)
qed



text \<open>
  The types for which the round trip is stated: bool, int, string, and structs of
  such types whose fields have ASCII names and tags with no option but
  \<^verbatim>\<open>omitempty\<close>, and which the encoder keeps under keys that differ even without
  regard to case. Their values are those whose strings are well-formed UTF-8.
\<close>

definition isASCII :: "char \<Rightarrow> bool" where
  "isASCII c = ((of_char c :: nat) < 0x80)"

definition plainly_tagged :: "field \<Rightarrow> bool" where
  "plainly_tagged f =
     (list_all isASCII (fname f) \<and> list_all isASCII (ftag f) \<and>
      list_all (\<lambda>opt. opt = ''omitempty'') (tl (strings_Split (ftag f) CHR '','')))"

definition json_key :: "field \<Rightarrow> string" where
  "json_key f = (case json_field f of None \<Rightarrow> [] | Some (name, _, _) \<Rightarrow> name)"

definition folded_key :: "field \<Rightarrow> string" where
  "folded_key f = foldName (json_key f)"

definition well_keyed :: "field list \<Rightarrow> bool" where
  "well_keyed fs =
     (list_all (\<lambda>f. json_field f \<noteq> None \<and> plainly_tagged f) fs \<and> distinct (map folded_key fs))"

fun plain :: "gtype \<Rightarrow> bool"
  and plain_fields :: "field list \<Rightarrow> bool" where
  "plain TBool = True"
| "plain TInt = True"
| "plain TString = True"
| "plain TFloat64 = False"
| "plain (TPtr _) = False"
| "plain (TSlice _) = False"
| "plain (TMap _) = False"
| "plain TInterface = False"
| "plain (TChan _) = False"
| "plain (TStruct fs) = (well_keyed fs \<and> plain_fields fs)"
| "plain_fields [] = True"
| "plain_fields (Field n tg t # fs) = (plain t \<and> plain_fields fs)"

text \<open>A value of such a type.\<close>

fun plain_value :: "gtype \<Rightarrow> gval \<Rightarrow> bool"
  and plain_values :: "field list \<Rightarrow> gval list \<Rightarrow> bool" where
  "plain_value TBool v = (case v of VBool _ \<Rightarrow> True | _ \<Rightarrow> False)"
| "plain_value TInt v = (case v of VInt _ \<Rightarrow> True | _ \<Rightarrow> False)"
| "plain_value TString v = (case v of VString s \<Rightarrow> ValidString 0 s | _ \<Rightarrow> False)"
| "plain_value TFloat64 v = False"
| "plain_value (TPtr _) v = False"
| "plain_value (TSlice _) v = False"
| "plain_value (TMap _) v = False"
| "plain_value TInterface v = False"
| "plain_value (TChan _) v = False"
| "plain_value (TStruct fs) v =
     (well_keyed fs \<and> (case v of VStruct vs \<Rightarrow> plain_values fs vs | _ \<Rightarrow> False))"
| "plain_values [] vs = (vs = [])"
| "plain_values (Field n tg t # fs) vs =
     (case vs of [] \<Rightarrow> False | v # vs' \<Rightarrow> plain_value t v \<and> plain_values fs vs')"

section \<open>Notions the properties are stated with\<close>

text \<open>A \<^verbatim>\<open>range\<close> visits every entry of the map once, in some order.\<close>

definition range_ok :: "range_order \<Rightarrow> bool" where
  "range_ok ord = (\<forall>m. mset (ord m) = mset m)"

text \<open>
  The fields of a model with their dotted key paths: each field of the struct under
  its own key, and below a field of struct kind the fields of the nested struct under
  \<open>key.childKey\<close>.
\<close>

function dotted_fields :: "gtype \<Rightarrow> gval \<Rightarrow> (string \<times> field \<times> gval) list"
  and dotted_fields_list :: "field list \<Rightarrow> gval list \<Rightarrow> (string \<times> field \<times> gval) list" where
  "dotted_fields t v =
     (case t of
        TStruct fs \<Rightarrow> (case v of VStruct vs \<Rightarrow> dotted_fields_list fs vs | _ \<Rightarrow> [])
      | _ \<Rightarrow> [])"
| "dotted_fields_list [] vs = []"
| "dotted_fields_list (f # fs) [] = []"
| "dotted_fields_list (f # fs) (v # vs) =
     (jsonKey_of f, f, v)
     # map (\<lambda>(k, g, w). (jsonKey_of f @ ''.'' @ k, g, w)) (dotted_fields (ftype f) v)
     @ dotted_fields_list fs vs"
  by pat_completeness auto
termination
proof -
  have sz: "2 * size (ftype f) < Suc (Suc (Suc (2 * size f + n)))" for f :: field and n
    by (cases f) simp
  show ?thesis
    by (relation "measure (\<lambda>x. case x of
           Inl (t, v) \<Rightarrow> 2 * size t
         | Inr (fs, vs) \<Rightarrow> 2 * size_list size fs + 1)")
      (auto simp: sz)
qed

text \<open>
  The model together with the nested structs that the flattening reaches: the values
  of its fields of struct kind, and theirs in turn.
\<close>

function nested_records :: "gtype \<Rightarrow> gval \<Rightarrow> iface list"
  and nested_records_list :: "field list \<Rightarrow> gval list \<Rightarrow> iface list" where
  "nested_records t v =
     Some (t, v)
     # (case t of
          TStruct fs \<Rightarrow> (case v of VStruct vs \<Rightarrow> nested_records_list fs vs | _ \<Rightarrow> [])
        | _ \<Rightarrow> [])"
| "nested_records_list [] vs = []"
| "nested_records_list (f # fs) [] = []"
| "nested_records_list (f # fs) (v # vs) =
     (if Kind (ftype f) = KStruct then nested_records (ftype f) v else [])
     @ nested_records_list fs vs"
  by pat_completeness auto
termination
proof -
  have sz: "2 * size (ftype f) < Suc (Suc (Suc (2 * size f + n)))" for f :: field and n
    by (cases f) simp
  show ?thesis
    by (relation "measure (\<lambda>x. case x of
           Inl (t, v) \<Rightarrow> 2 * size t
         | Inr (fs, vs) \<Rightarrow> 2 * size_list size fs + 1)")
      (auto simp: sz)
qed

text \<open>
  A struct value with a value for each field, whose fields are all exported, and
  whose fields of struct kind are such values again.
\<close>

function exported_struct :: "gtype \<Rightarrow> gval \<Rightarrow> bool"
  and exported_struct_list :: "field list \<Rightarrow> gval list \<Rightarrow> bool" where
  "exported_struct t v =
     (case t of
        TStruct fs \<Rightarrow> (case v of VStruct vs \<Rightarrow> exported_struct_list fs vs | _ \<Rightarrow> False)
      | _ \<Rightarrow> False)"
| "exported_struct_list [] vs = (vs = [])"
| "exported_struct_list (f # fs) [] = False"
| "exported_struct_list (f # fs) (v # vs) =
     (exported f
      \<and> (if Kind (ftype f) = KStruct then exported_struct (ftype f) v else True)
      \<and> exported_struct_list fs vs)"
  by pat_completeness auto
termination
proof -
  have sz: "2 * size (ftype f) < Suc (Suc (Suc (2 * size f + n)))" for f :: field and n
    by (cases f) simp
  show ?thesis
    by (relation "measure (\<lambda>x. case x of
           Inl (t, v) \<Rightarrow> 2 * size t
         | Inr (fs, vs) \<Rightarrow> 2 * size_list size fs + 1)")
      (auto simp: sz)
qed

text \<open>
  The value \<open>x\<close> is what \<^verbatim>\<open>StructToM\<close> stores for the field \<open>f\<close> holding \<open>w\<close>: the
  field is exported, not of struct kind, not deeply equal to the zero value of its
  type, and \<open>x\<close> is its boxed value.
\<close>

definition emitted_as :: "field \<Rightarrow> gval \<Rightarrow> iface \<Rightarrow> bool" where
  "emitted_as f w x =
     (x = Interface (ftype f) w \<and> Kind (ftype f) \<noteq> KStruct \<and> exported f \<and>
      \<not> DeepEqual (Interface (ftype f) (Zero (ftype f))) (Interface (ftype f) w))"

text \<open>
  The entry \<open>(k, x)\<close> is one that the field \<open>f\<close> holding \<open>v\<close> contributes when the
  intermediate form is \<open>data\<close>: the key of \<open>f\<close> is a key of \<open>data\<close>, \<open>f\<close> is exported
  and not at its zero value, and either \<open>f\<close> is not of struct kind and the entry is
  its key with its value, or \<open>f\<close> is of struct kind and the entry is an entry
  of the projection of \<open>v\<close> with the key of \<open>f\<close> and a dot before its key.
\<close>

definition field_entry ::
  "range_order \<Rightarrow> (string \<times> json) list \<Rightarrow> field \<Rightarrow> gval \<Rightarrow> string \<Rightarrow> iface \<Rightarrow> bool" where
  "field_entry ord data f v k x =
     (map_of data (jsonKey_of f) \<noteq> None \<and> exported f \<and>
      \<not> DeepEqual (Interface (ftype f) (Zero (ftype f))) (Interface (ftype f) v) \<and>
      (if Kind (ftype f) = KStruct
       then \<exists>m' k'. StructToM ord (Some (ftype f, v)) = Ok m' \<and> (k', x) \<in> set m' \<and>
              k = jsonKey_of f @ ''.'' @ k'
       else k = jsonKey_of f \<and> x = Interface (ftype f) v))"

text \<open>Two outcomes that a caller cannot tell apart: the mappings are compared as maps.\<close>

fun same_outcome :: "bsonM result \<Rightarrow> bsonM result \<Rightarrow> bool" where
  "same_outcome (Ok m1) r = (case r of Ok m2 \<Rightarrow> map_of m1 = map_of m2 | _ \<Rightarrow> False)"
| "same_outcome (Error e1) r = (case r of Error e2 \<Rightarrow> e1 = e2 | _ \<Rightarrow> False)"
| "same_outcome Panic r = (case r of Panic \<Rightarrow> True | _ \<Rightarrow> False)"

text \<open>
  Keys of the mapping are dotted paths. The key \<open>k'\<close> is below \<open>k\<close> when it is \<open>k\<close>, a
  dot and something more; two keys are apart when they differ and neither is below
  the other.
\<close>

definition below :: "string \<Rightarrow> string \<Rightarrow> bool" where
  "below k k' = (take (Suc (length k)) k' = k @ ''.'')"



section \<open>Example models\<close>

definition Product :: gtype where
  "Product = TStruct [Field ''Name'' ''name'' TString,
                      Field ''Price'' ''price'' TFloat64,
                      Field ''Quantity'' ''quantity'' TInt]"

definition Address :: gtype where
  "Address = TStruct [Field ''City'' ''city'' TString, Field ''Zip'' ''zip'' TString]"

definition Customer :: gtype where
  "Customer = TStruct [Field ''Address'' ''address'' Address]"

definition CustomerRef :: gtype where
  "CustomerRef = TStruct [Field ''Address'' ''address'' (TPtr Address)]"







text \<open>
  A model with tagged and untagged fields and a nested address, and one with a name
  and a pointer to an address.
\<close>

definition Parcel :: "field list" where
  "Parcel = [Field ''ID'' ''_id,omitempty'' TString, Field ''Name'' '''' TString,
             Field ''Count'' '',omitempty'' TInt, Field ''Address'' ''address'' Address]"


section \<open>Auxiliary facts\<close>


lemma strings_Split_not_Nil: "strings_Split s sep \<noteq> []"
  by (induction s) (auto split: list.splits)

lemma hd_strings_Split: "hd (strings_Split s sep) = takeWhile (\<lambda>c. c \<noteq> sep) s"
  by (induction s) (auto split: list.splits simp: strings_Split_not_Nil)

lemma jsonKey_of_takeWhile:
  "jsonKey_of f = (if takeWhile (\<lambda>c. c \<noteq> CHR '','') (ftag f) = [] then fname f
                   else takeWhile (\<lambda>c. c \<noteq> CHR '','') (ftag f))"
  by (simp add: jsonKey_of_def hd_strings_Split Let_def)

lemma in_set_update:
  "(k, x) \<in> set (AList.update k' v' al) \<Longrightarrow> (k = k' \<and> x = v') \<or> (k, x) \<in> set al"
  by (induction al) (auto split: if_splits)

lemma in_set_fold_update:
  "(k, x) \<in> set (fold (\<lambda>(a, b). AList.update (p a) b) xs r)
    \<Longrightarrow> (k, x) \<in> set r \<or> (\<exists>a. (a, x) \<in> set xs \<and> k = p a)"
proof (induction xs arbitrary: r)
  case Nil
  then show ?case by simp
next
  case (Cons y ys)
  obtain a b where y: "y = (a, b)" by (cases y)
  from Cons.prems have "(k, x) \<in> set (fold (\<lambda>(a, b). AList.update (p a) b) ys (AList.update (p a) b r))"
    by (simp add: y)
  from Cons.IH[OF this] show ?case
    by (auto simp: y dest: in_set_update)
qed

lemma distinct_fold_update:
  "distinct (map fst r) \<Longrightarrow> distinct (map fst (fold (\<lambda>(a, b). AList.update (p a) b) xs r))"
  by (induction xs arbitrary: r) (auto simp: distinct_update)

lemma map_of_fold_update:
  "map_of (fold (\<lambda>(a, b). AList.update (p a) b) xs r)
     = map_of r ++ map_of (rev (map (\<lambda>(a, b). (p a, b)) xs))"
proof (induction xs arbitrary: r)
  case Nil
  then show ?case by simp
next
  case (Cons y ys)
  obtain a b where y: "y = (a, b)" by (cases y)
  show ?case
    by (simp add: y Cons.IH update_conv' map_add_def fun_eq_iff split: option.splits)
qed


declare StructToM.simps [simp del]

lemma range_ok_set: "range_ok ord \<Longrightarrow> set (ord m) = set m"
  unfolding range_ok_def by (metis mset_eq_setD)

lemma StructToM_loop_cases:
  assumes "StructToM_loop ord data (f # fs) (v # vs) result = Ok m"
  obtains (skip) "StructToM_loop ord data fs vs result = Ok m"
    | (nested) m' where "map_of data (jsonKey_of f) \<noteq> None" "exported f"
        "\<not> DeepEqual (Interface (ftype f) (Zero (ftype f))) (Interface (ftype f) v)"
        "Kind (ftype f) = KStruct" "StructToM ord (Some (ftype f, v)) = Ok m'"
        "StructToM_loop ord data fs vs
           (fold (\<lambda>(a, b). AList.update (jsonKey_of f @ ''.'' @ a) b) (ord m') result) = Ok m"
    | (leaf) "map_of data (jsonKey_of f) \<noteq> None" "exported f"
        "\<not> DeepEqual (Interface (ftype f) (Zero (ftype f))) (Interface (ftype f) v)"
        "Kind (ftype f) \<noteq> KStruct"
        "StructToM_loop ord data fs vs (AList.update (jsonKey_of f) (Interface (ftype f) v) result) = Ok m"
  using assms by (auto simp: Let_def split: if_splits result.splits)

lemma StructToM_loop_entry:
  "range_ok ord \<Longrightarrow> StructToM_loop ord data fs vs result = Ok m \<Longrightarrow> (k, x) \<in> set m \<Longrightarrow>
     (k, x) \<in> set result \<or> (\<exists>(f, v) \<in> set (zip fs vs). field_entry ord data f v k x)"
proof (induction fs arbitrary: vs result)
  case Nil
  then show ?case by simp
next
  case (Cons f fs)
  show ?case
  proof (cases vs)
    case Nil
    with Cons.prems show ?thesis by simp
  next
    case (Cons v vs')
    note vs = this
    have here: "field_entry ord data f v k x \<Longrightarrow> ?thesis"
      unfolding vs by auto
    have rest: "\<exists>(f, v) \<in> set (zip fs vs'). field_entry ord data f v k x \<Longrightarrow> ?thesis"
      unfolding vs by auto
    from Cons.prems(2)[unfolded vs] show ?thesis
    proof (cases rule: StructToM_loop_cases)
      case skip
      from Cons.IH[OF Cons.prems(1) skip Cons.prems(3)] rest show ?thesis by blast
    next
      case (nested m')
      from Cons.IH[OF Cons.prems(1) nested(6) Cons.prems(3)]
      show ?thesis
      proof
        assume "(k, x) \<in> set (fold (\<lambda>(a, b). AList.update (jsonKey_of f @ ''.'' @ a) b) (ord m') result)"
        from in_set_fold_update[OF this]
        have "(k, x) \<in> set result \<or> (\<exists>a. (a, x) \<in> set m' \<and> k = jsonKey_of f @ ''.'' @ a)"
          by (simp add: range_ok_set[OF Cons.prems(1)])
        then show ?thesis
        proof
          assume "(k, x) \<in> set result" then show ?thesis by simp
        next
          assume "\<exists>a. (a, x) \<in> set m' \<and> k = jsonKey_of f @ ''.'' @ a"
          with nested have "field_entry ord data f v k x"
            unfolding field_entry_def by auto
          then show ?thesis by (rule here)
        qed
      next
        assume "\<exists>(f, v) \<in> set (zip fs vs'). field_entry ord data f v k x"
        then show ?thesis by (rule rest)
      qed
    next
      case leaf
      from Cons.IH[OF Cons.prems(1) leaf(5) Cons.prems(3)]
      show ?thesis
      proof
        assume "(k, x) \<in> set (AList.update (jsonKey_of f) (Interface (ftype f) v) result)"
        from in_set_update[OF this] show ?thesis
        proof
          assume "k = jsonKey_of f \<and> x = Interface (ftype f) v"
          with leaf have "field_entry ord data f v k x"
            unfolding field_entry_def by auto
          then show ?thesis by (rule here)
        next
          assume "(k, x) \<in> set result" then show ?thesis by simp
        qed
      next
        assume "\<exists>(f, v) \<in> set (zip fs vs'). field_entry ord data f v k x"
        then show ?thesis by (rule rest)
      qed
    qed
  qed
qed


declare dotted_fields.simps [simp del] nested_records.simps [simp del]
  exported_struct.simps [simp del]

lemma StructToM_Ok_struct:
  assumes "StructToM ord source = Ok m"
  obtains fs vs j data where "source = Some (TStruct fs, VStruct vs)"
    "json_Marshal source = Inr j" "json_Unmarshal_map j = Inr data"
    "StructToM_loop ord data fs vs [] = Ok m"
  using assms unfolding StructToM.simps
  by (auto split: sum.splits option.splits prod.splits gtype.splits gval.splits)

lemma size_ftype_less: "f \<in> set fs \<Longrightarrow> size (ftype f) < size (TStruct fs)"
proof (induction fs)
  case Nil
  then show ?case by simp
next
  case (Cons g fs)
  have "size (ftype g) \<le> size g" by (cases g) simp
  with Cons show ?case by auto
qed

lemma dotted_fields_direct:
  "(f, v) \<in> set (zip fs vs) \<Longrightarrow> (jsonKey_of f, f, v) \<in> set (dotted_fields_list fs vs)"
proof (induction fs arbitrary: vs)
  case Nil
  then show ?case by simp
next
  case (Cons g fs)
  then show ?case by (cases vs) auto
qed

lemma dotted_fields_nested:
  "(f, v) \<in> set (zip fs vs) \<Longrightarrow> (k', g, w) \<in> set (dotted_fields (ftype f) v) \<Longrightarrow>
     (jsonKey_of f @ ''.'' @ k', g, w) \<in> set (dotted_fields_list fs vs)"
proof (induction fs arbitrary: vs)
  case Nil
  then show ?case by simp
next
  case (Cons h fs)
  show ?case
  proof (cases vs)
    case Nil
    with Cons.prems show ?thesis by simp
  next
    case (Cons u us)
    from Cons.prems(1)[unfolded Cons] have "(f = h \<and> v = u) \<or> (f, v) \<in> set (zip fs us)"
      by auto
    then show ?thesis
    proof
      assume "f = h \<and> v = u"
      with Cons.prems(2) show ?thesis unfolding Cons by force
    next
      assume "(f, v) \<in> set (zip fs us)"
      from Cons.IH[OF this Cons.prems(2)] show ?thesis unfolding Cons by simp
    qed
  qed
qed

lemma StructToM_provenance:
  "range_ok ord \<Longrightarrow> StructToM ord (Some (t, v)) = Ok m \<Longrightarrow> (k, x) \<in> set m \<Longrightarrow>
     \<exists>f w. (k, f, w) \<in> set (dotted_fields t v) \<and> emitted_as f w x"
proof (induction t arbitrary: v m k x rule: measure_induct_rule[where f = size])
  case (less t)
  from less.prems(2) obtain fs vs j data where
    src: "Some (t, v) = Some (TStruct fs, VStruct vs)"
    and loop: "StructToM_loop ord data fs vs [] = Ok m"
    by (rule StructToM_Ok_struct)
  from src have t: "t = TStruct fs" and v: "v = VStruct vs" by simp_all
  from StructToM_loop_entry[OF less.prems(1) loop less.prems(3)]
  obtain f u where fu: "(f, u) \<in> set (zip fs vs)" and fe: "field_entry ord data f u k x"
    by auto
  have df: "dotted_fields t v = dotted_fields_list fs vs"
    by (simp add: dotted_fields.simps t v)
  show ?case
  proof (cases "Kind (ftype f) = KStruct")
    case True
    with fe obtain m' k' where n: "StructToM ord (Some (ftype f, u)) = Ok m'"
      "(k', x) \<in> set m'" "k = jsonKey_of f @ ''.'' @ k'"
      unfolding field_entry_def by auto
    from fu have "f \<in> set fs" by (rule set_zip_leftD)
    then have "size (ftype f) < size t" unfolding t by (rule size_ftype_less)
    from less.IH[OF this less.prems(1) n(1) n(2)]
    obtain g w where gw: "(k', g, w) \<in> set (dotted_fields (ftype f) u)" "emitted_as g w x"
      by blast
    from dotted_fields_nested[OF fu gw(1)] gw(2) show ?thesis
      unfolding df n(3) by blast
  next
    case False
    with fe have "k = jsonKey_of f" "emitted_as f u x"
      unfolding field_entry_def emitted_as_def by auto
    with dotted_fields_direct[OF fu] show ?thesis unfolding df by blast
  qed
qed

lemma StructToM_loop_distinct:
  "StructToM_loop ord data fs vs result = Ok m \<Longrightarrow> distinct (map fst result) \<Longrightarrow>
     distinct (map fst m)"
proof (induction fs arbitrary: vs result)
  case Nil
  then show ?case by simp
next
  case (Cons f fs)
  show ?case
  proof (cases vs)
    case Nil
    with Cons.prems show ?thesis by simp
  next
    case (Cons v vs')
    from Cons.prems(1)[unfolded Cons] show ?thesis
    proof (cases rule: StructToM_loop_cases)
      case skip
      from Cons.IH[OF skip Cons.prems(2)] show ?thesis by simp
    next
      case (nested m')
      from Cons.IH[OF nested(6) distinct_fold_update[OF Cons.prems(2)]] show ?thesis by simp
    next
      case leaf
      from Cons.IH[OF leaf(5) distinct_update[OF Cons.prems(2)]] show ?thesis by simp
    qed
  qed
qed

lemma StructToM_distinct: "StructToM ord source = Ok m \<Longrightarrow> distinct (map fst m)"
proof (erule StructToM_Ok_struct)
  fix fs vs data
  assume "StructToM_loop ord data fs vs [] = Ok m"
  then show ?thesis by (rule StructToM_loop_distinct) simp
qed

lemma range_ok_distinct:
  "range_ok ord \<Longrightarrow> distinct (map fst m) \<Longrightarrow> distinct (map fst (ord m))"
proof -
  assume r: "range_ok ord" and d: "distinct (map fst m)"
  from r have "mset (map fst (ord m)) = mset (map fst m)"
    unfolding range_ok_def by (metis mset_map)
  then show ?thesis using d by (metis mset_eq_imp_distinct_iff)
qed

lemma map_of_fold_update_same:
  assumes r1: "range_ok o1" and r2: "range_ok o2"
    and d1: "distinct (map fst m1)" and d2: "distinct (map fst m2)"
    and m: "map_of m1 = map_of m2" and r: "map_of res1 = map_of res2"
  shows "map_of (fold (\<lambda>(a, b). AList.update (jk @ ''.'' @ a) b) (o1 m1) res1)
       = map_of (fold (\<lambda>(a, b). AList.update (jk @ ''.'' @ a) b) (o2 m2) res2)"
proof -
  let ?g = "\<lambda>(a, b). (jk @ ''.'' @ a, b :: iface)"
  have key: "map fst (map ?g xs) = map (\<lambda>a. jk @ ''.'' @ a) (map fst xs)" for xs
    by (induction xs) auto
  have dist: "distinct (map fst xs) \<Longrightarrow> distinct (map fst (rev (map ?g xs)))" for xs
  proof -
    assume "distinct (map fst xs)"
    then have "distinct (map (\<lambda>a. jk @ ''.'' @ a) (map fst xs))"
      by (simp only: distinct_map) (simp add: inj_on_def)
    then have "distinct (map fst (map ?g xs))" by (simp only: key)
    then show ?thesis by (simp only: rev_map[symmetric] distinct_rev)
  qed
  have s: "set m1 = set m2"
    using map_of_inject_set[OF d1 d2] m by simp
  have "set (rev (map ?g (o1 m1))) = set (rev (map ?g (o2 m2)))"
    by (simp add: range_ok_set[OF r1] range_ok_set[OF r2] s)
  moreover have "distinct (map fst (rev (map ?g (o1 m1))))"
    by (rule dist[OF range_ok_distinct[OF r1 d1]])
  moreover have "distinct (map fst (rev (map ?g (o2 m2))))"
    by (rule dist[OF range_ok_distinct[OF r2 d2]])
  ultimately have "map_of (rev (map ?g (o1 m1))) = map_of (rev (map ?g (o2 m2)))"
    using map_of_inject_set by blast
  then show ?thesis by (simp add: map_of_fold_update r)
qed


lemma same_outcome_Ok:
  "same_outcome (Ok m1) r \<Longrightarrow> \<exists>m2. r = Ok m2 \<and> map_of m1 = map_of m2"
  by (cases r) auto

lemma same_outcome_Error: "same_outcome (Error e) r \<Longrightarrow> r = Error e"
  by (cases r) auto

lemma same_outcome_Panic: "same_outcome Panic r \<Longrightarrow> r = Panic"
  by (cases r) auto

lemma StructToM_loop_same:
  assumes r1: "range_ok o1" and r2: "range_ok o2"
  shows "(\<And>f v. (f, v) \<in> set (zip fs vs) \<Longrightarrow> Kind (ftype f) = KStruct \<Longrightarrow>
            same_outcome (StructToM o1 (Some (ftype f, v))) (StructToM o2 (Some (ftype f, v))))
     \<Longrightarrow> map_of res1 = map_of res2
     \<Longrightarrow> same_outcome (StructToM_loop o1 data fs vs res1) (StructToM_loop o2 data fs vs res2)"
proof (induction fs arbitrary: vs res1 res2)
  case Nil
  then show ?case by simp
next
  case (Cons f fs)
  show ?case
  proof (cases vs)
    case Nil
    then show ?thesis by simp
  next
    case (Cons v vs')
    note vs = this
    have nested: "\<And>g u. (g, u) \<in> set (zip fs vs') \<Longrightarrow> Kind (ftype g) = KStruct \<Longrightarrow>
            same_outcome (StructToM o1 (Some (ftype g, u))) (StructToM o2 (Some (ftype g, u)))"
      using Cons.prems(1) unfolding vs by simp
    have step: "\<And>a b. map_of a = map_of b \<Longrightarrow>
        same_outcome (StructToM_loop o1 data fs vs' a) (StructToM_loop o2 data fs vs' b)"
      using Cons.IH[OF nested] by blast
    show ?thesis
    proof (cases "map_of data (jsonKey_of f) \<noteq> None \<and> exported f \<and>
        \<not> DeepEqual (Interface (ftype f) (Zero (ftype f))) (Interface (ftype f) v)")
      case False
      then show ?thesis
        unfolding vs using step[OF Cons.prems(2)] by (auto simp: Let_def)
    next
      case True
      note present = this
      show ?thesis
      proof (cases "Kind (ftype f) = KStruct")
        case False
        have "map_of (AList.update (jsonKey_of f) (Interface (ftype f) v) res1)
            = map_of (AList.update (jsonKey_of f) (Interface (ftype f) v) res2)"
          by (simp add: update_conv' Cons.prems(2))
        from step[OF this] show ?thesis
          unfolding vs using present False by (simp add: Let_def)
      next
        case True
        have so: "same_outcome (StructToM o1 (Some (ftype f, v))) (StructToM o2 (Some (ftype f, v)))"
          using Cons.prems(1)[of f v] True unfolding vs by simp
        show ?thesis
        proof (cases "StructToM o1 (Some (ftype f, v))")
          case (Ok m1)
          from same_outcome_Ok[OF so[unfolded Ok]]
          obtain m2 where m2: "StructToM o2 (Some (ftype f, v)) = Ok m2"
            "map_of m1 = map_of m2" by blast
          have "map_of (fold (\<lambda>(a, b). AList.update (jsonKey_of f @ ''.'' @ a) b) (o1 m1) res1)
              = map_of (fold (\<lambda>(a, b). AList.update (jsonKey_of f @ ''.'' @ a) b) (o2 m2) res2)"
            by (rule map_of_fold_update_same[OF r1 r2 StructToM_distinct[OF Ok]
                  StructToM_distinct[OF m2(1)] m2(2) Cons.prems(2)])
          from step[OF this] show ?thesis
            unfolding vs using present True Ok m2(1) by (simp add: Let_def)
        next
          case (Error e)
          from same_outcome_Error[OF so[unfolded Error]]
          have "StructToM o2 (Some (ftype f, v)) = Error e" .
          with Error show ?thesis
            unfolding vs using present True by (simp add: Let_def)
        next
          case Panic
          from same_outcome_Panic[OF so[unfolded Panic]]
          have "StructToM o2 (Some (ftype f, v)) = Panic" .
          with Panic show ?thesis
            unfolding vs using present True by (simp add: Let_def)
        qed
      qed
    qed
  qed
qed

lemma StructToM_same:
  assumes r1: "range_ok o1" and r2: "range_ok o2"
  shows "same_outcome (StructToM o1 (Some (t, v))) (StructToM o2 (Some (t, v)))"
proof (induction t arbitrary: v rule: measure_induct_rule[where f = size])
  case (less t)
  show ?case
  proof (cases "\<exists>fs vs j data. t = TStruct fs \<and> v = VStruct vs \<and>
      json_Marshal (Some (t, v)) = Inr j \<and> json_Unmarshal_map j = Inr data")
    case True
    then obtain fs vs j data where s: "t = TStruct fs" "v = VStruct vs"
      "json_Marshal (Some (t, v)) = Inr j" "json_Unmarshal_map j = Inr data" by blast
    have "same_outcome (StructToM_loop o1 data fs vs []) (StructToM_loop o2 data fs vs [])"
    proof (rule StructToM_loop_same[OF r1 r2])
      fix f u assume "(f, u) \<in> set (zip fs vs)"
      then have "f \<in> set fs" by (rule set_zip_leftD)
      then have "size (ftype f) < size t" unfolding s(1) by (rule size_ftype_less)
      then show "same_outcome (StructToM o1 (Some (ftype f, u))) (StructToM o2 (Some (ftype f, u)))"
        by (rule less.IH)
    qed simp
    then show ?thesis using s by (simp add: StructToM.simps)
  next
    case False
    then have "StructToM o1 (Some (t, v)) = StructToM o2 (Some (t, v))"
      unfolding StructToM.simps
      by (auto split: sum.splits option.splits prod.splits gtype.splits gval.splits)
    moreover have "same_outcome r r" for r :: "bsonM result" by (cases r) auto
    ultimately show ?thesis by simp
  qed
qed

lemmas eval_defs =
  StructToM.simps jsonKey_of_def exported_def isUpper_def dominant_def json_field_def
  isValidTag_def isLetterOrDigit_def float64_eq_def float64_isNaN_def float64_isInf_def
  Product_def Address_def Customer_def CustomerRef_def Let_def

lemma range_ok_id: "range_ok (\<lambda>xs. xs)"
  by (simp add: range_ok_def)

lemma range_ok_rev: "range_ok rev"
  by (simp add: range_ok_def)

text \<open>
  C9. When the argument is not a struct value and its encoding and decoding both
  succeed, \<^verbatim>\<open>StructToM\<close> panics (in \<^verbatim>\<open>NumField\<close>) instead of returning an error; so
  does the nil interface. A pointer to a struct is such an argument.
\<close>

theorem C9_struct_only_precondition:
  "(Kind t \<noteq> KStruct \<longrightarrow> json_Marshal (Some (t, v)) = Inr j \<longrightarrow> json_Unmarshal_map j = Inr data \<longrightarrow>
      StructToM ord (Some (t, v)) = Panic)
   \<and> StructToM ord None = Panic"
  by (cases t) (simp_all add: StructToM.simps)

theorem C9_struct_only_precondition_witness:
  "Kind (TPtr Address) \<noteq> KStruct
   \<and> json_Marshal (Some (TPtr Address, VPtr (Some (VStruct [VString ''Rome'', VString '''']))))
       = Inr (JObject [(''city'', JString ''Rome''), (''zip'', JString '''')])
   \<and> json_Unmarshal_map (JObject [(''city'', JString ''Rome''), (''zip'', JString '''')])
       = Inr [(''city'', JString ''Rome''), (''zip'', JString '''')]
   \<and> StructToM (\<lambda>xs. xs) (Some (TPtr Address, VPtr (Some (VStruct [VString ''Rome'', VString ''''])))) = Panic"
proof -
  have k: "Kind (TPtr Address) \<noteq> KStruct" by simp
  have m: "json_Marshal (Some (TPtr Address, VPtr (Some (VStruct [VString ''Rome'', VString '''']))))
       = Inr (JObject [(''city'', JString ''Rome''), (''zip'', JString '''')])"
    by code_simp
  have u: "json_Unmarshal_map (JObject [(''city'', JString ''Rome''), (''zip'', JString '''')])
       = Inr [(''city'', JString ''Rome''), (''zip'', JString '''')]"
    by simp
  from C9_struct_only_precondition[of "TPtr Address"
      "VPtr (Some (VStruct [VString ''Rome'', VString '''']))"
      "JObject [(''city'', JString ''Rome''), (''zip'', JString '''')]"
      "[(''city'', JString ''Rome''), (''zip'', JString '''')]" "\<lambda>xs. xs"] k m u
  show ?thesis by blast
qed

text \<open>
  C5. \<^verbatim>\<open>StructToM\<close> has one outcome for each input: whatever order the \<^verbatim>\<open>range\<close>
  over a nested mapping takes in one run and in another, both runs end the same way,
  and when they return mappings these are the same map.
\<close>

theorem C5_deterministic:
  "range_ok o1 \<Longrightarrow> range_ok o2 \<Longrightarrow> same_outcome (StructToM o1 source) (StructToM o2 source)"
proof (cases source)
  case None
  then show ?thesis by (simp add: StructToM.simps)
next
  case (Some p)
  assume "range_ok o1" "range_ok o2"
  then show ?thesis unfolding Some by (cases p) (simp add: StructToM_same)
qed

theorem C5_deterministic_witness:
  "range_ok (\<lambda>xs. xs) \<and> range_ok rev
   \<and> StructToM (\<lambda>xs. xs) (Some (Customer, VStruct [VStruct [VString ''Rome'', VString ''00100'']]))
       = Ok [(''address.city'', Some (TString, VString ''Rome'')),
             (''address.zip'', Some (TString, VString ''00100''))]
   \<and> StructToM rev (Some (Customer, VStruct [VStruct [VString ''Rome'', VString ''00100'']]))
       = Ok [(''address.zip'', Some (TString, VString ''00100'')),
             (''address.city'', Some (TString, VString ''Rome''))]
   \<and> same_outcome
        (StructToM (\<lambda>xs. xs) (Some (Customer, VStruct [VStruct [VString ''Rome'', VString ''00100'']])))
        (StructToM rev (Some (Customer, VStruct [VStruct [VString ''Rome'', VString ''00100'']])))"
proof -
  have a: "StructToM (\<lambda>xs. xs) (Some (Customer, VStruct [VStruct [VString ''Rome'', VString ''00100'']]))
       = Ok [(''address.city'', Some (TString, VString ''Rome'')),
             (''address.zip'', Some (TString, VString ''00100''))]"
    by code_simp
  have b: "StructToM rev (Some (Customer, VStruct [VStruct [VString ''Rome'', VString ''00100'']]))
       = Ok [(''address.zip'', Some (TString, VString ''00100'')),
             (''address.city'', Some (TString, VString ''Rome''))]"
    by code_simp
  from C5_deterministic[OF range_ok_id range_ok_rev,
      of "Some (Customer, VStruct [VStruct [VString ''Rome'', VString ''00100'']])"]
  show ?thesis using range_ok_id range_ok_rev a b by blast
qed

lemma deepValueEqual_Zero:
  "deepValueEqual (Zero t) (Zero t)"
  "deepValueEqual_list (Zero_fields fs) (Zero_fields fs)"
  by (induction t and fs rule: Zero_Zero_fields.induct)
     (simp_all add: float64_eq_def float64_isNaN_def)

lemma DeepEqual_Zero: "DeepEqual (Interface t (Zero t)) (Interface t (Zero t))"
  by (cases t) (simp_all add: deepValueEqual_Zero float64_eq_def float64_isNaN_def)

lemma StructToM_loop_Zero:
  "StructToM_loop ord data fs (Zero_fields fs) result = Ok m \<Longrightarrow> m = result"
proof (induction fs arbitrary: result)
  case Nil
  then show ?case by simp
next
  case (Cons f fs)
  obtain n tg t where f: "f = Field n tg t" by (cases f)
  from Cons.prems have "StructToM_loop ord data fs (Zero_fields fs) result = Ok m"
    unfolding f by (simp add: Let_def DeepEqual_Zero split: if_splits)
  then show ?case by (rule Cons.IH)
qed

lemma StructToM_Zero: "StructToM ord (Some (t, Zero t)) = Ok m \<Longrightarrow> m = []"
proof (erule StructToM_Ok_struct)
  fix fs vs data
  assume "Some (t, Zero t) = Some (TStruct fs, VStruct vs)"
    and l: "StructToM_loop ord data fs vs [] = Ok m"
  then have "vs = Zero_fields fs" by auto
  with l show ?thesis by (auto dest: StructToM_loop_Zero)
qed

lemma range_ok_Nil: "range_ok ord \<Longrightarrow> ord [] = []"
proof -
  assume "range_ok ord"
  then have "mset (ord []) = mset []" unfolding range_ok_def by blast
  then show ?thesis by simp
qed

lemma range_ok_single: "range_ok ord \<Longrightarrow> ord [a] = [a]"
proof -
  assume "range_ok ord"
  then have m: "mset (ord [a]) = mset [a]" unfolding range_ok_def by blast
  then have "length (ord [a]) = 1" by (metis length_Cons list.size(3) size_mset One_nat_def)
  then obtain b where b: "ord [a] = [b]" by (cases "ord [a]") auto
  with m show ?thesis by simp
qed

lemma StructToM_flat:
  "list_all (\<lambda>f. Kind (ftype f) \<noteq> KStruct) fs \<Longrightarrow>
     StructToM_loop ord data fs vs result = StructToM_loop ord' data fs vs result"
proof (induction fs arbitrary: vs result)
  case Nil
  then show ?case by simp
next
  case (Cons f fs)
  then show ?case by (cases vs) (simp_all add: Let_def)
qed

lemma StructToM_flat_order:
  assumes "list_all (\<lambda>f. Kind (ftype f) \<noteq> KStruct) fs"
  shows "StructToM ord (Some (TStruct fs, v)) = StructToM ord' (Some (TStruct fs, v))"
  unfolding StructToM.simps
  by (simp add: StructToM_flat[OF assms, of ord _ _ _ ord']
        split: sum.splits gval.splits)

lemma Widget_any_order:
  "StructToM ord (Some (Product, VStruct [VString ''Widget'', VFloat64 0, VInt 5]))
     = Ok [(''name'', Some (TString, VString ''Widget'')), (''quantity'', Some (TInt, VInt 5))]"
proof -
  have "StructToM ord (Some (Product, VStruct [VString ''Widget'', VFloat64 0, VInt 5]))
      = StructToM (\<lambda>xs. xs) (Some (Product, VStruct [VString ''Widget'', VFloat64 0, VInt 5]))"
    unfolding Product_def by (rule StructToM_flat_order) simp
  also have "\<dots> = Ok [(''name'', Some (TString, VString ''Widget'')), (''quantity'', Some (TInt, VInt 5))]"
    by code_simp
  finally show ?thesis .
qed

lemma Product_zero_any_order: "StructToM ord (Some (Product, Zero Product)) = Ok []"
proof -
  have "StructToM ord (Some (Product, Zero Product))
      = StructToM (\<lambda>xs. xs) (Some (Product, Zero Product))"
    unfolding Product_def by (rule StructToM_flat_order) simp
  also have "\<dots> = Ok []"
    by code_simp
  finally show ?thesis .
qed



text \<open>
  C1. Whatever \<^verbatim>\<open>StructToM\<close> stores under a key is the value of a field of the model
  with that dotted key, and that value is not deeply equal to the zero value of the
  field's type; hence a field at its zero value is never stored. When every field of
  the model is at its zero value the mapping is empty. The product with the name
  Widget, price 0.0 and quantity 5 yields the name and the quantity only.
\<close>

theorem C1_zero_value_elision:
  "(range_ok ord \<longrightarrow> StructToM ord (Some (t, v)) = Ok m \<longrightarrow> (k, x) \<in> set m \<longrightarrow>
      (\<exists>f w. (k, f, w) \<in> set (dotted_fields t v) \<and> x = Interface (ftype f) w \<and>
             \<not> DeepEqual (Interface (ftype f) (Zero (ftype f))) x))
   \<and> (StructToM ord (Some (t, Zero t)) = Ok m \<longrightarrow> m = [])
   \<and> StructToM ord (Some (Product, VStruct [VString ''Widget'', VFloat64 0, VInt 5]))
       = Ok [(''name'', Some (TString, VString ''Widget'')), (''quantity'', Some (TInt, VInt 5))]
   \<and> StructToM ord (Some (Product, Zero Product)) = Ok []"
proof (intro conjI impI)
  assume "range_ok ord" "StructToM ord (Some (t, v)) = Ok m" "(k, x) \<in> set m"
  from StructToM_provenance[OF this]
  show "\<exists>f w. (k, f, w) \<in> set (dotted_fields t v) \<and> x = Interface (ftype f) w \<and>
             \<not> DeepEqual (Interface (ftype f) (Zero (ftype f))) x"
    unfolding emitted_as_def by blast
next
  assume "StructToM ord (Some (t, Zero t)) = Ok m"
  then show "m = []" by (rule StructToM_Zero)
next
  show "StructToM ord (Some (Product, VStruct [VString ''Widget'', VFloat64 0, VInt 5]))
       = Ok [(''name'', Some (TString, VString ''Widget'')), (''quantity'', Some (TInt, VInt 5))]"
    by (rule Widget_any_order)
next
  show "StructToM ord (Some (Product, Zero Product)) = Ok []"
    by (rule Product_zero_any_order)
qed

theorem C1_zero_value_elision_witness:
  "range_ok rev
   \<and> StructToM rev (Some (Customer, VStruct [VStruct [VString ''Rome'', VString '''']]))
       = Ok [(''address.city'', Some (TString, VString ''Rome''))]
   \<and> (\<exists>f w. (''address.city'', f, w)
               \<in> set (dotted_fields Customer (VStruct [VStruct [VString ''Rome'', VString '''']]))
          \<and> Some (TString, VString ''Rome'') = Interface (ftype f) w
          \<and> \<not> DeepEqual (Interface (ftype f) (Zero (ftype f))) (Some (TString, VString ''Rome'')))
   \<and> StructToM rev (Some (Address, Zero Address)) = Ok []"
proof -
  have s: "StructToM rev (Some (Customer, VStruct [VStruct [VString ''Rome'', VString '''']]))
       = Ok [(''address.city'', Some (TString, VString ''Rome''))]"
    by code_simp
  have z: "StructToM rev (Some (Address, Zero Address)) = Ok []"
    by code_simp
  have kx: "(''address.city'', Some (TString, VString ''Rome''))
       \<in> set [(''address.city'', Some (TString, VString ''Rome''))]" by simp
  from C1_zero_value_elision[of rev Customer "VStruct [VStruct [VString ''Rome'', VString '''']]"
      "[(''address.city'', Some (TString, VString ''Rome''))]" "''address.city''"
      "Some (TString, VString ''Rome'')"] range_ok_rev s kx z
  show ?thesis by blast
qed

lemma map_of_rekey:
  "inj p \<Longrightarrow> map_of (map (\<lambda>(a, b). (p a, b)) xs) (p ck) = map_of xs ck"
  by (induction xs) (auto simp: inj_def)


lemma map_of_range_ok:
  assumes "range_ok ord" "distinct (map fst m)"
  shows "map_of (ord m) = map_of m"
  using map_of_inject_set[OF range_ok_distinct[OF assms] assms(2)] range_ok_set[OF assms(1)]
  by simp

lemma map_of_rev_rekey:
  assumes "inj p" "distinct (map fst xs)"
  shows "map_of (rev (map (\<lambda>(a, b). (p a, b)) xs)) = map_of (map (\<lambda>(a, b). (p a, b)) xs)"
proof -
  let ?g = "\<lambda>(a, b). (p a, b)"
  have key: "map fst (map ?g ys) = map p (map fst ys)" for ys
    by (induction ys) auto
  have "distinct (map p (map fst xs))"
    using assms by (simp only: distinct_map) (simp add: inj_on_def inj_def)
  then have d: "distinct (map fst (map ?g xs))" by (simp only: key)
  then have "distinct (map fst (rev (map ?g xs)))"
    by (simp only: rev_map[symmetric] distinct_rev)
  from map_of_inject_set[OF this d] show ?thesis by simp
qed

lemma fold_rekey_child:
  assumes r: "range_ok ord" and d: "distinct (map fst valueMap)" and i: "inj p"
  shows "map_of (fold (\<lambda>(a, b). AList.update (p a) b) (ord valueMap) result) (p ck)
       = (case map_of valueMap ck of Some y \<Rightarrow> Some y | None \<Rightarrow> map_of result (p ck))"
proof -
  have "map_of (rev (map (\<lambda>(a, b). (p a, b)) (ord valueMap))) (p ck) = map_of valueMap ck"
    by (simp only: map_of_rev_rekey[OF i range_ok_distinct[OF r d]] map_of_rekey[OF i]
          map_of_range_ok[OF r d])
  then show ?thesis
    by (simp add: map_of_fold_update map_add_def split: option.splits)
qed


lemma inj_dotted: "inj (\<lambda>a. jk @ ''.'' @ a)"
  by (simp add: inj_def)



text \<open>
  C3 as stated fails: the model with the address whose city is Rome is projected to
  the key address.city, and the intermediate form of that model has the single key
  address.
\<close>

theorem C3_nested_key_not_in_intermediate_form:
  "StructToM (\<lambda>xs. xs) (Some (Customer, VStruct [VStruct [VString ''Rome'', VString '''']]))
     = Ok [(''address.city'', Some (TString, VString ''Rome''))]
   \<and> json_Marshal (Some (Customer, VStruct [VStruct [VString ''Rome'', VString '''']]))
     = Inr (JObject [(''address'', JObject [(''city'', JString ''Rome''), (''zip'', JString '''')])])
   \<and> json_Unmarshal_map
       (JObject [(''address'', JObject [(''city'', JString ''Rome''), (''zip'', JString '''')])])
     = Inr [(''address'', JObject [(''city'', JString ''Rome''), (''zip'', JString '''')])]
   \<and> map_of [(''address'', JObject [(''city'', JString ''Rome''), (''zip'', JString '''')])]
       ''address.city'' = None"
  by code_simp

text \<open>
  C3, amended. Every entry of the mapping returned for a struct comes from one of
  its fields whose key is a key of the intermediate form: the entry is that key with
  the value of the field when the field is not of struct kind, and it is that key, a
  dot and a key of the projection of the field, with the value found there, when
  the field is of struct kind. A field whose key is not in the intermediate form is
  passed over. When no field of the struct is of struct kind, every key of the
  mapping is a key of the intermediate form.
\<close>

theorem C3_intermediate_form_membership:
  "(range_ok ord \<longrightarrow> json_Marshal (Some (TStruct fs, VStruct vs)) = Inr j \<longrightarrow>
    json_Unmarshal_map j = Inr data \<longrightarrow>
    StructToM ord (Some (TStruct fs, VStruct vs)) = Ok m \<longrightarrow> (k, x) \<in> set m \<longrightarrow>
      (\<exists>(f, v) \<in> set (zip fs vs).
          map_of data (jsonKey_of f) \<noteq> None \<and>
          (if Kind (ftype f) = KStruct
           then \<exists>m' k'. StructToM ord (Some (ftype f, v)) = Ok m' \<and> (k', x) \<in> set m' \<and>
                  k = jsonKey_of f @ ''.'' @ k'
           else k = jsonKey_of f \<and> x = Interface (ftype f) v)))
   \<and> (map_of data (jsonKey_of g) = None \<longrightarrow>
        StructToM_loop ord data (g # gs) (u # us) result = StructToM_loop ord data gs us result)
   \<and> (range_ok ord \<longrightarrow> json_Marshal (Some (TStruct fs, VStruct vs)) = Inr j \<longrightarrow>
       json_Unmarshal_map j = Inr data \<longrightarrow>
       StructToM ord (Some (TStruct fs, VStruct vs)) = Ok m \<longrightarrow> (k, x) \<in> set m \<longrightarrow>
       list_all (\<lambda>f. Kind (ftype f) \<noteq> KStruct) fs \<longrightarrow> map_of data k \<noteq> None)"
proof -
  have main: "\<exists>(f, v) \<in> set (zip fs vs).
          map_of data (jsonKey_of f) \<noteq> None \<and>
          (if Kind (ftype f) = KStruct
           then \<exists>m' k'. StructToM ord (Some (ftype f, v)) = Ok m' \<and> (k', x) \<in> set m' \<and>
                  k = jsonKey_of f @ ''.'' @ k'
           else k = jsonKey_of f \<and> x = Interface (ftype f) v)"
    if r: "range_ok ord" and j: "json_Marshal (Some (TStruct fs, VStruct vs)) = Inr j"
      and d: "json_Unmarshal_map j = Inr data"
      and s: "StructToM ord (Some (TStruct fs, VStruct vs)) = Ok m" and kx: "(k, x) \<in> set m"
  proof -
    from s j d have loop: "StructToM_loop ord data fs vs [] = Ok m"
      by (simp add: StructToM.simps)
    from StructToM_loop_entry[OF r loop kx]
    obtain f v where "(f, v) \<in> set (zip fs vs)" "field_entry ord data f v k x" by auto
    then show ?thesis unfolding field_entry_def by blast
  qed
  have flat: "map_of data k \<noteq> None"
    if r: "range_ok ord" and j: "json_Marshal (Some (TStruct fs, VStruct vs)) = Inr j"
      and d: "json_Unmarshal_map j = Inr data"
      and s: "StructToM ord (Some (TStruct fs, VStruct vs)) = Ok m" and kx: "(k, x) \<in> set m"
      and l: "list_all (\<lambda>f. Kind (ftype f) \<noteq> KStruct) fs"
  proof -
    from main[OF r j d s kx] obtain f v where fv: "(f, v) \<in> set (zip fs vs)"
      and p: "map_of data (jsonKey_of f) \<noteq> None"
      and c: "if Kind (ftype f) = KStruct
           then \<exists>m' k'. StructToM ord (Some (ftype f, v)) = Ok m' \<and> (k', x) \<in> set m' \<and>
                  k = jsonKey_of f @ ''.'' @ k'
           else k = jsonKey_of f \<and> x = Interface (ftype f) v" by blast
    from fv have "f \<in> set fs" by (rule set_zip_leftD)
    with l have "Kind (ftype f) \<noteq> KStruct" by (simp add: list_all_iff)
    with c p show ?thesis by simp
  qed
  have skip: "StructToM_loop ord data (g # gs) (u # us) result = StructToM_loop ord data gs us result"
    if "map_of data (jsonKey_of g) = None"
    using that by (simp add: Let_def)
  from main flat skip show ?thesis by blast
qed

theorem C3_intermediate_form_membership_witness:
  "range_ok rev
   \<and> json_Marshal (Some (TStruct [Field ''Address'' ''address'' Address],
                          VStruct [VStruct [VString ''Rome'', VString '''']]))
       = Inr (JObject [(''address'', JObject [(''city'', JString ''Rome''), (''zip'', JString '''')])])
   \<and> json_Unmarshal_map
         (JObject [(''address'', JObject [(''city'', JString ''Rome''), (''zip'', JString '''')])])
       = Inr [(''address'', JObject [(''city'', JString ''Rome''), (''zip'', JString '''')])]
   \<and> StructToM rev (Some (TStruct [Field ''Address'' ''address'' Address],
                          VStruct [VStruct [VString ''Rome'', VString '''']]))
       = Ok [(''address.city'', Some (TString, VString ''Rome''))]
   \<and> (\<exists>(f, v) \<in> set (zip [Field ''Address'' ''address'' Address]
                            [VStruct [VString ''Rome'', VString '''']]).
          map_of [(''address'', JObject [(''city'', JString ''Rome''), (''zip'', JString '''')])]
            (jsonKey_of f) \<noteq> None \<and>
          (if Kind (ftype f) = KStruct
           then \<exists>m' k'. StructToM rev (Some (ftype f, v)) = Ok m' \<and>
                  (k', Some (TString, VString ''Rome'')) \<in> set m' \<and>
                  ''address.city'' = jsonKey_of f @ ''.'' @ k'
           else ''address.city'' = jsonKey_of f \<and>
                Some (TString, VString ''Rome'') = Interface (ftype f) v))"
proof -
  have j: "json_Marshal (Some (TStruct [Field ''Address'' ''address'' Address],
                          VStruct [VStruct [VString ''Rome'', VString '''']]))
       = Inr (JObject [(''address'', JObject [(''city'', JString ''Rome''), (''zip'', JString '''')])])"
    by code_simp
  have d: "json_Unmarshal_map
         (JObject [(''address'', JObject [(''city'', JString ''Rome''), (''zip'', JString '''')])])
       = Inr [(''address'', JObject [(''city'', JString ''Rome''), (''zip'', JString '''')])]"
    by simp
  have s: "StructToM rev (Some (TStruct [Field ''Address'' ''address'' Address],
                          VStruct [VStruct [VString ''Rome'', VString '''']]))
       = Ok [(''address.city'', Some (TString, VString ''Rome''))]"
    by code_simp
  have kx: "(''address.city'', Some (TString, VString ''Rome''))
      \<in> set [(''address.city'', Some (TString, VString ''Rome''))]" by simp
  from C3_intermediate_form_membership[of rev "[Field ''Address'' ''address'' Address]"
      "[VStruct [VString ''Rome'', VString '''']]"
      "JObject [(''address'', JObject [(''city'', JString ''Rome''), (''zip'', JString '''')])]"
      "[(''address'', JObject [(''city'', JString ''Rome''), (''zip'', JString '''')])]"
      "[(''address.city'', Some (TString, VString ''Rome''))]" "''address.city''"
      "Some (TString, VString ''Rome'')"] range_ok_rev j d s kx
  show ?thesis by blast
qed

subsection \<open>What a field contributes, and under which key\<close>

lemma below_dotted: "below k (k @ ''.'' @ c)"
  by (simp add: below_def)






lemma map_of_fold_update_other:
  "(\<And>a. k \<noteq> p a) \<Longrightarrow> map_of (fold (\<lambda>(a, b). AList.update (p a) b) xs r) k = map_of r k"
proof (induction xs arbitrary: r)
  case Nil
  then show ?case by simp
next
  case (Cons y ys)
  obtain a b where y: "y = (a, b)" by (cases y)
  from Cons show ?case by (simp add: y update_conv')
qed

lemma StructToM_loop_untouched:
  "StructToM_loop ord data fs vs result = Ok m \<Longrightarrow>
   (\<And>g. g \<in> set fs \<Longrightarrow> jsonKey_of g \<noteq> k \<and> \<not> below (jsonKey_of g) k) \<Longrightarrow>
     map_of m k = map_of result k"
proof (induction fs arbitrary: vs result)
  case Nil
  then show ?case by simp
next
  case (Cons f fs)
  have f: "jsonKey_of f \<noteq> k" "\<not> below (jsonKey_of f) k" using Cons.prems(2)[of f] by simp_all
  have rest: "\<And>g. g \<in> set fs \<Longrightarrow> jsonKey_of g \<noteq> k \<and> \<not> below (jsonKey_of g) k"
    using Cons.prems(2) by simp
  show ?case
  proof (cases vs)
    case Nil
    with Cons.prems show ?thesis by simp
  next
    case (Cons v vs')
    from Cons.prems(1)[unfolded Cons] show ?thesis
    proof (cases rule: StructToM_loop_cases)
      case skip
      from Cons.IH[OF skip rest] show ?thesis .
    next
      case (nested m')
      have "k \<noteq> jsonKey_of f @ ''.'' @ a" for a
        using f(2) below_dotted[of "jsonKey_of f" a] by auto
      then have "map_of (fold (\<lambda>(a, b). AList.update (jsonKey_of f @ ''.'' @ a) b) (ord m') result) k
          = map_of result k"
        by (rule map_of_fold_update_other)
      with Cons.IH[OF nested(6) rest] show ?thesis by simp
    next
      case leaf
      from Cons.IH[OF leaf(5) rest] f(1) show ?thesis by (simp add: update_conv')
    qed
  qed
qed

lemma StructToM_loop_keeps:
  "StructToM_loop ord data fs vs result = Ok m \<Longrightarrow> map_of result k \<noteq> None \<Longrightarrow> map_of m k \<noteq> None"
proof (induction fs arbitrary: vs result)
  case Nil
  then show ?case by simp
next
  case (Cons f fs)
  show ?case
  proof (cases vs)
    case Nil
    with Cons.prems show ?thesis by simp
  next
    case (Cons v vs')
    from Cons.prems(1)[unfolded Cons] show ?thesis
    proof (cases rule: StructToM_loop_cases)
      case skip
      from Cons.IH[OF skip Cons.prems(2)] show ?thesis .
    next
      case (nested m')
      have "map_of (fold (\<lambda>(a, b). AList.update (jsonKey_of f @ ''.'' @ a) b) (ord m') result) k \<noteq> None"
        using Cons.prems(2) by (simp add: map_of_fold_update map_add_def split: option.splits)
      from Cons.IH[OF nested(6) this] show ?thesis .
    next
      case leaf
      have "map_of (AList.update (jsonKey_of f) (Interface (ftype f) v) result) k \<noteq> None"
        using Cons.prems(2) by (simp add: update_conv')
      from Cons.IH[OF leaf(5) this] show ?thesis .
    qed
  qed
qed

lemma StructToM_loop_length:
  "StructToM_loop ord data fs vs result = Ok m \<Longrightarrow> length fs \<le> length vs"
proof (induction fs arbitrary: vs result)
  case Nil
  then show ?case by simp
next
  case (Cons f fs)
  show ?case
  proof (cases vs)
    case Nil
    with Cons.prems show ?thesis by simp
  next
    case (Cons v vs')
    from Cons.prems(1)[unfolded Cons] have "length fs \<le> length vs'"
    proof (cases rule: StructToM_loop_cases)
      case skip
      then show ?thesis by (rule Cons.IH)
    next
      case (nested m')
      from nested(6) show ?thesis by (rule Cons.IH)
    next
      case leaf
      from leaf(5) show ?thesis by (rule Cons.IH)
    qed
    then show ?thesis by (simp add: Cons)
  qed
qed

lemma StructToM_loop_prefix:
  "StructToM_loop ord data (pre @ fs) (pvs @ vs) result = Ok m \<Longrightarrow> length pvs = length pre \<Longrightarrow>
     \<exists>r. StructToM_loop ord data fs vs r = Ok m"
proof (induction pre arbitrary: pvs result)
  case Nil
  then show ?case by auto
next
  case (Cons f pre)
  from Cons.prems(2) obtain v pvs' where pvs: "pvs = v # pvs'" and l: "length pvs' = length pre"
    by (cases pvs) simp_all
  from Cons.prems(1) have "StructToM_loop ord data (f # (pre @ fs)) (v # (pvs' @ vs)) result = Ok m"
    by (simp add: pvs)
  then show ?case
  proof (cases rule: StructToM_loop_cases)
    case skip
    from Cons.IH[OF skip l] show ?thesis .
  next
    case (nested m')
    from Cons.IH[OF nested(6) l] show ?thesis .
  next
    case leaf
    from Cons.IH[OF leaf(5) l] show ?thesis .
  qed
qed

lemma StructToM_loop_leaf_step:
  "StructToM_loop ord data (f # fs) (v # vs) r = Ok m \<Longrightarrow> Kind (ftype f) \<noteq> KStruct \<Longrightarrow>
   map_of data (jsonKey_of f) \<noteq> None \<Longrightarrow>
   \<not> DeepEqual (Interface (ftype f) (Zero (ftype f))) (Interface (ftype f) v) \<Longrightarrow>
     StructToM_loop ord data fs vs (AList.update (jsonKey_of f) (Interface (ftype f) v) r) = Ok m"
  by (simp add: Let_def split: if_splits)

lemma StructToM_loop_at:
  assumes loop: "StructToM_loop ord data fs vs result = Ok m" and i: "i < length fs"
  obtains r where
    "StructToM_loop ord data (fs ! i # drop (Suc i) fs) (vs ! i # drop (Suc i) vs) r = Ok m"
proof -
  from StructToM_loop_length[OF loop] i have iv: "i < length vs" by simp
  have fs: "fs = take i fs @ (fs ! i # drop (Suc i) fs)"
    using i by (simp add: id_take_nth_drop[symmetric])
  have vs: "vs = take i vs @ (vs ! i # drop (Suc i) vs)"
    using iv by (simp add: id_take_nth_drop[symmetric])
  have l: "length (take i vs) = length (take i fs)" using i iv by simp
  from loop have "StructToM_loop ord data (take i fs @ (fs ! i # drop (Suc i) fs))
      (take i vs @ (vs ! i # drop (Suc i) vs)) result = Ok m"
    using fs vs by simp
  from StructToM_loop_prefix[OF this l] that show ?thesis by blast
qed

lemma later_fields:
  assumes "g \<in> set (drop (Suc i) fs)"
  obtains j where "i < j" "j < length fs" "g = fs ! j"
proof -
  from assms obtain n where n: "n < length (drop (Suc i) fs)" "g = drop (Suc i) fs ! n"
    by (auto simp: in_set_conv_nth)
  then have "i < Suc i + n" "Suc i + n < length fs" "g = fs ! (Suc i + n)" by simp_all
  then show ?thesis by (rule that)
qed

lemma StructToM_loop_leaf_present:
  assumes loop: "StructToM_loop ord data fs vs result = Ok m" and i: "i < length fs"
    and k: "Kind (ftype (fs ! i)) \<noteq> KStruct"
    and d: "map_of data (jsonKey_of (fs ! i)) \<noteq> None"
    and nz: "\<not> DeepEqual (Interface (ftype (fs ! i)) (Zero (ftype (fs ! i))))
        (Interface (ftype (fs ! i)) (vs ! i))"
  shows "map_of m (jsonKey_of (fs ! i)) \<noteq> None"
proof -
  from StructToM_loop_at[OF loop i] obtain r where
    "StructToM_loop ord data (fs ! i # drop (Suc i) fs) (vs ! i # drop (Suc i) vs) r = Ok m" .
  from StructToM_loop_leaf_step[OF this k d nz]
  have rest: "StructToM_loop ord data (drop (Suc i) fs) (drop (Suc i) vs)
      (AList.update (jsonKey_of (fs ! i)) (Interface (ftype (fs ! i)) (vs ! i)) r) = Ok m" .
  show ?thesis
    by (rule StructToM_loop_keeps[OF rest]) (simp add: update_conv')
qed

lemma StructToM_loop_leaf_value:
  assumes loop: "StructToM_loop ord data fs vs result = Ok m" and i: "i < length fs"
    and k: "Kind (ftype (fs ! i)) \<noteq> KStruct"
    and d: "map_of data (jsonKey_of (fs ! i)) \<noteq> None"
    and nz: "\<not> DeepEqual (Interface (ftype (fs ! i)) (Zero (ftype (fs ! i))))
        (Interface (ftype (fs ! i)) (vs ! i))"
    and later: "\<And>j. i < j \<Longrightarrow> j < length fs \<Longrightarrow>
        jsonKey_of (fs ! j) \<noteq> jsonKey_of (fs ! i) \<and>
        \<not> below (jsonKey_of (fs ! j)) (jsonKey_of (fs ! i))"
  shows "map_of m (jsonKey_of (fs ! i)) = Some (Interface (ftype (fs ! i)) (vs ! i))"
proof -
  from StructToM_loop_at[OF loop i] obtain r where
    "StructToM_loop ord data (fs ! i # drop (Suc i) fs) (vs ! i # drop (Suc i) vs) r = Ok m" .
  from StructToM_loop_leaf_step[OF this k d nz]
  have rest: "StructToM_loop ord data (drop (Suc i) fs) (drop (Suc i) vs)
      (AList.update (jsonKey_of (fs ! i)) (Interface (ftype (fs ! i)) (vs ! i)) r) = Ok m" .
  have "jsonKey_of g \<noteq> jsonKey_of (fs ! i) \<and> \<not> below (jsonKey_of g) (jsonKey_of (fs ! i))"
    if "g \<in> set (drop (Suc i) fs)" for g
  proof -
    from that obtain j where "i < j" "j < length fs" "g = fs ! j" by (rule later_fields)
    with later[of j] show ?thesis by simp
  qed
  from StructToM_loop_untouched[OF rest this]
  show ?thesis by (simp add: update_conv')
qed

lemma StructToM_loop_nested_step:
  "StructToM_loop ord data (f # fs) (v # vs) r = Ok m \<Longrightarrow> Kind (ftype f) = KStruct \<Longrightarrow>
   map_of data (jsonKey_of f) \<noteq> None \<Longrightarrow>
   \<not> DeepEqual (Interface (ftype f) (Zero (ftype f))) (Interface (ftype f) v) \<Longrightarrow>
   StructToM ord (Some (ftype f, v)) = Ok m' \<Longrightarrow>
     StructToM_loop ord data fs vs
       (fold (\<lambda>(a, b). AList.update (jsonKey_of f @ ''.'' @ a) b) (ord m') r) = Ok m"
  by (simp add: Let_def split: if_splits)

lemma StructToM_loop_nested_value:
  assumes r: "range_ok ord"
    and loop: "StructToM_loop ord data fs vs result = Ok m" and i: "i < length fs"
    and k: "Kind (ftype (fs ! i)) = KStruct"
    and d: "map_of data (jsonKey_of (fs ! i)) \<noteq> None"
    and nz: "\<not> DeepEqual (Interface (ftype (fs ! i)) (Zero (ftype (fs ! i))))
        (Interface (ftype (fs ! i)) (vs ! i))"
    and child: "StructToM ord (Some (ftype (fs ! i), vs ! i)) = Ok m'"
    and ck: "map_of m' ck = Some x"
    and later: "\<And>j. i < j \<Longrightarrow> j < length fs \<Longrightarrow>
        jsonKey_of (fs ! j) \<noteq> jsonKey_of (fs ! i) @ ''.'' @ ck \<and>
        \<not> below (jsonKey_of (fs ! j)) (jsonKey_of (fs ! i) @ ''.'' @ ck)"
  shows "map_of m (jsonKey_of (fs ! i) @ ''.'' @ ck) = Some x"
proof -
  let ?key = "jsonKey_of (fs ! i)"
  from StructToM_loop_at[OF loop i] obtain r0 where
    "StructToM_loop ord data (fs ! i # drop (Suc i) fs) (vs ! i # drop (Suc i) vs) r0 = Ok m" .
  from StructToM_loop_nested_step[OF this k d nz child]
  have rest: "StructToM_loop ord data (drop (Suc i) fs) (drop (Suc i) vs)
      (fold (\<lambda>(a, b). AList.update (?key @ ''.'' @ a) b) (ord m') r0) = Ok m" .
  have "jsonKey_of g \<noteq> ?key @ ''.'' @ ck \<and> \<not> below (jsonKey_of g) (?key @ ''.'' @ ck)"
    if "g \<in> set (drop (Suc i) fs)" for g
  proof -
    from that obtain j where "i < j" "j < length fs" "g = fs ! j" by (rule later_fields)
    with later[of j] show ?thesis by simp
  qed
  from StructToM_loop_untouched[OF rest this]
  have "map_of m (?key @ ''.'' @ ck)
      = map_of (fold (\<lambda>(a, b). AList.update (?key @ ''.'' @ a) b) (ord m') r0) (?key @ ''.'' @ ck)" .
  also have "\<dots> = (case map_of m' ck of Some y \<Rightarrow> Some y | None \<Rightarrow> map_of r0 (?key @ ''.'' @ ck))"
    by (rule fold_rekey_child[OF r StructToM_distinct[OF child] inj_dotted])
  finally show ?thesis by (simp add: ck)
qed

lemma StructToM_struct_loop:
  "StructToM ord (Some (TStruct fs, VStruct vs)) = Ok m \<Longrightarrow>
   json_Marshal (Some (TStruct fs, VStruct vs)) = Inr j \<Longrightarrow> json_Unmarshal_map j = Inr data \<Longrightarrow>
     StructToM_loop ord data fs vs [] = Ok m"
  by (simp add: StructToM.simps)

text \<open>
  C7. The key of a field is the part of its json tag before the first comma, and the
  name of the field when that part is empty. \<^verbatim>\<open>StructToM\<close> stores a field under that
  key: a field that is not of struct kind, whose key is in the intermediate form and
  which is not at its zero value has its key in the mapping returned, and the value
  found there is the value of the field unless a later field stores under the same
  key; an entry of the projection of a field of struct kind is found under the key
  of the field, a dot and the child key, on the same condition. And every entry of
  the mapping is the value of a field under the key of that field, or an entry of
  the projection of a field of struct kind under such a dotted key.
\<close>

theorem C7_external_key_resolution:
  "jsonKey_of f =
     (let a = takeWhile (\<lambda>c. c \<noteq> CHR '','') (ftag f) in if a = [] then fname f else a)
   \<and> (StructToM ord (Some (TStruct fs, VStruct vs)) = Ok m \<longrightarrow>
      json_Marshal (Some (TStruct fs, VStruct vs)) = Inr j \<longrightarrow> json_Unmarshal_map j = Inr data \<longrightarrow>
      i < length fs \<longrightarrow> map_of data (jsonKey_of (fs ! i)) \<noteq> None \<longrightarrow>
      \<not> DeepEqual (Interface (ftype (fs ! i)) (Zero (ftype (fs ! i))))
           (Interface (ftype (fs ! i)) (vs ! i)) \<longrightarrow>
        (Kind (ftype (fs ! i)) \<noteq> KStruct \<longrightarrow>
           map_of m (jsonKey_of (fs ! i)) \<noteq> None \<and>
           ((\<forall>n. i < n \<and> n < length fs \<longrightarrow>
                jsonKey_of (fs ! n) \<noteq> jsonKey_of (fs ! i) \<and>
                \<not> below (jsonKey_of (fs ! n)) (jsonKey_of (fs ! i))) \<longrightarrow>
            map_of m (jsonKey_of (fs ! i)) = Some (Interface (ftype (fs ! i)) (vs ! i))))
        \<and> (range_ok ord \<longrightarrow> Kind (ftype (fs ! i)) = KStruct \<longrightarrow>
            StructToM ord (Some (ftype (fs ! i), vs ! i)) = Ok m' \<longrightarrow> map_of m' ck = Some y \<longrightarrow>
            (\<forall>n. i < n \<and> n < length fs \<longrightarrow>
                jsonKey_of (fs ! n) \<noteq> jsonKey_of (fs ! i) @ ''.'' @ ck \<and>
                \<not> below (jsonKey_of (fs ! n)) (jsonKey_of (fs ! i) @ ''.'' @ ck)) \<longrightarrow>
            map_of m (jsonKey_of (fs ! i) @ ''.'' @ ck) = Some y))
   \<and> (range_ok ord \<longrightarrow> StructToM ord (Some (TStruct fs, VStruct vs)) = Ok m \<longrightarrow> (k, x) \<in> set m \<longrightarrow>
        (\<exists>(g, u) \<in> set (zip fs vs).
            if Kind (ftype g) = KStruct
            then \<exists>m' k'. StructToM ord (Some (ftype g, u)) = Ok m' \<and> (k', x) \<in> set m' \<and>
                   k = jsonKey_of g @ ''.'' @ k'
            else k = jsonKey_of g \<and> x = Interface (ftype g) u))"
proof (intro conjI impI)
  show "jsonKey_of f =
     (let a = takeWhile (\<lambda>c. c \<noteq> CHR '','') (ftag f) in if a = [] then fname f else a)"
    by (simp add: jsonKey_of_takeWhile Let_def)
next
  assume s: "StructToM ord (Some (TStruct fs, VStruct vs)) = Ok m"
    and j: "json_Marshal (Some (TStruct fs, VStruct vs)) = Inr j"
    and d: "json_Unmarshal_map j = Inr data"
    and i: "i < length fs" and p: "map_of data (jsonKey_of (fs ! i)) \<noteq> None"
    and nz: "\<not> DeepEqual (Interface (ftype (fs ! i)) (Zero (ftype (fs ! i))))
           (Interface (ftype (fs ! i)) (vs ! i))"
    and k: "Kind (ftype (fs ! i)) \<noteq> KStruct"
  note loop = StructToM_struct_loop[OF s j d]
  show "map_of m (jsonKey_of (fs ! i)) \<noteq> None"
    by (rule StructToM_loop_leaf_present[OF loop i k p nz])
next
  assume s: "StructToM ord (Some (TStruct fs, VStruct vs)) = Ok m"
    and j: "json_Marshal (Some (TStruct fs, VStruct vs)) = Inr j"
    and d: "json_Unmarshal_map j = Inr data"
    and i: "i < length fs" and p: "map_of data (jsonKey_of (fs ! i)) \<noteq> None"
    and nz: "\<not> DeepEqual (Interface (ftype (fs ! i)) (Zero (ftype (fs ! i))))
           (Interface (ftype (fs ! i)) (vs ! i))"
    and k: "Kind (ftype (fs ! i)) \<noteq> KStruct"
    and later: "\<forall>n. i < n \<and> n < length fs \<longrightarrow>
                jsonKey_of (fs ! n) \<noteq> jsonKey_of (fs ! i) \<and>
                \<not> below (jsonKey_of (fs ! n)) (jsonKey_of (fs ! i))"
  note loop = StructToM_struct_loop[OF s j d]
  show "map_of m (jsonKey_of (fs ! i)) = Some (Interface (ftype (fs ! i)) (vs ! i))"
    by (rule StructToM_loop_leaf_value[OF loop i k p nz]) (use later in blast)
next
  assume s: "StructToM ord (Some (TStruct fs, VStruct vs)) = Ok m"
    and j: "json_Marshal (Some (TStruct fs, VStruct vs)) = Inr j"
    and d: "json_Unmarshal_map j = Inr data"
    and i: "i < length fs" and p: "map_of data (jsonKey_of (fs ! i)) \<noteq> None"
    and nz: "\<not> DeepEqual (Interface (ftype (fs ! i)) (Zero (ftype (fs ! i))))
           (Interface (ftype (fs ! i)) (vs ! i))"
    and r: "range_ok ord" and k: "Kind (ftype (fs ! i)) = KStruct"
    and c: "StructToM ord (Some (ftype (fs ! i), vs ! i)) = Ok m'" and ck: "map_of m' ck = Some y"
    and later: "\<forall>n. i < n \<and> n < length fs \<longrightarrow>
                jsonKey_of (fs ! n) \<noteq> jsonKey_of (fs ! i) @ ''.'' @ ck \<and>
                \<not> below (jsonKey_of (fs ! n)) (jsonKey_of (fs ! i) @ ''.'' @ ck)"
  note loop = StructToM_struct_loop[OF s j d]
  show "map_of m (jsonKey_of (fs ! i) @ ''.'' @ ck) = Some y"
    by (rule StructToM_loop_nested_value[OF r loop i k p nz c ck]) (use later in blast)
next
  assume r: "range_ok ord" and s: "StructToM ord (Some (TStruct fs, VStruct vs)) = Ok m"
    and kx: "(k, x) \<in> set m"
  from s obtain data where loop: "StructToM_loop ord data fs vs [] = Ok m"
    by (auto elim: StructToM_Ok_struct)
  from StructToM_loop_entry[OF r loop kx]
  obtain g u where gu: "(g, u) \<in> set (zip fs vs)" and fe: "field_entry ord data g u k x"
    by auto
  from fe have "if Kind (ftype g) = KStruct
            then \<exists>m' k'. StructToM ord (Some (ftype g, u)) = Ok m' \<and> (k', x) \<in> set m' \<and>
                   k = jsonKey_of g @ ''.'' @ k'
            else k = jsonKey_of g \<and> x = Interface (ftype g) u"
    unfolding field_entry_def by auto
  with gu show "\<exists>(g, u) \<in> set (zip fs vs).
            if Kind (ftype g) = KStruct
            then \<exists>m' k'. StructToM ord (Some (ftype g, u)) = Ok m' \<and> (k', x) \<in> set m' \<and>
                   k = jsonKey_of g @ ''.'' @ k'
            else k = jsonKey_of g \<and> x = Interface (ftype g) u" by blast
qed

theorem C7_external_key_resolution_witness:
  "jsonKey_of (Field ''ID'' ''_id,omitempty'' TString) = ''_id''
   \<and> jsonKey_of (Field ''Name'' '''' TString) = ''Name''
   \<and> jsonKey_of (Field ''Count'' '',omitempty'' TInt) = ''Count''
   \<and> StructToM rev (Some (TStruct Parcel,
        VStruct [VString ''a1'', VString ''Widget'', VInt 5, VStruct [VString ''Rome'', VString '''']]))
       = Ok [(''_id'', Some (TString, VString ''a1'')), (''Name'', Some (TString, VString ''Widget'')),
             (''Count'', Some (TInt, VInt 5)), (''address.city'', Some (TString, VString ''Rome''))]
   \<and> map_of [(''_id'', Some (TString, VString ''a1'')), (''Name'', Some (TString, VString ''Widget'')),
             (''Count'', Some (TInt, VInt 5)), (''address.city'', Some (TString, VString ''Rome''))]
         ''Name'' = Some (Some (TString, VString ''Widget''))
   \<and> map_of [(''_id'', Some (TString, VString ''a1'')), (''Name'', Some (TString, VString ''Widget'')),
             (''Count'', Some (TInt, VInt 5)), (''address.city'', Some (TString, VString ''Rome''))]
         ''address.city'' = Some (Some (TString, VString ''Rome''))"
proof -
  let ?vs = "[VString ''a1'', VString ''Widget'', VInt 5, VStruct [VString ''Rome'', VString '''']]"
  let ?m = "[(''_id'', Some (TString, VString ''a1'')), (''Name'', Some (TString, VString ''Widget'')),
             (''Count'', Some (TInt, VInt 5)), (''address.city'', Some (TString, VString ''Rome''))]"
  let ?data = "[(''_id'', JString ''a1''), (''Name'', JString ''Widget''), (''Count'', JInt 5),
                (''address'', JObject [(''city'', JString ''Rome''), (''zip'', JString '''')])]"
  have s: "StructToM rev (Some (TStruct Parcel, VStruct ?vs)) = Ok ?m" by code_simp
  have j: "json_Marshal (Some (TStruct Parcel, VStruct ?vs)) = Inr (JObject ?data)" by code_simp
  have d: "json_Unmarshal_map (JObject ?data) = Inr ?data" by simp
  have i1: "1 < length Parcel" and i3: "3 < length Parcel" by code_simp+
  have p1: "map_of ?data (jsonKey_of (Parcel ! 1)) \<noteq> None" by code_simp
  have p3: "map_of ?data (jsonKey_of (Parcel ! 3)) \<noteq> None" by code_simp
  have nz1: "\<not> DeepEqual (Interface (ftype (Parcel ! 1)) (Zero (ftype (Parcel ! 1))))
           (Interface (ftype (Parcel ! 1)) (?vs ! 1))" by code_simp
  have nz3: "\<not> DeepEqual (Interface (ftype (Parcel ! 3)) (Zero (ftype (Parcel ! 3))))
           (Interface (ftype (Parcel ! 3)) (?vs ! 3))" by code_simp
  have k1: "Kind (ftype (Parcel ! 1)) \<noteq> KStruct" by code_simp
  have k3: "Kind (ftype (Parcel ! 3)) = KStruct" by code_simp
  have key1: "jsonKey_of (Parcel ! 1) = ''Name''" by code_simp
  have key3: "jsonKey_of (Parcel ! 3) = ''address''" by code_simp
  have l2: "jsonKey_of (Parcel ! 2) \<noteq> jsonKey_of (Parcel ! 1) \<and>
           \<not> below (jsonKey_of (Parcel ! 2)) (jsonKey_of (Parcel ! 1))" by code_simp
  have l3: "jsonKey_of (Parcel ! 3) \<noteq> jsonKey_of (Parcel ! 1) \<and>
           \<not> below (jsonKey_of (Parcel ! 3)) (jsonKey_of (Parcel ! 1))" by code_simp
  have len: "length Parcel = 4" by code_simp
  have later1: "\<forall>n. 1 < n \<and> n < length Parcel \<longrightarrow>
       jsonKey_of (Parcel ! n) \<noteq> jsonKey_of (Parcel ! 1) \<and>
       \<not> below (jsonKey_of (Parcel ! n)) (jsonKey_of (Parcel ! 1))"
  proof (intro allI impI)
    fix n :: nat assume "1 < n \<and> n < length Parcel"
    then have "n = 2 \<or> n = 3" unfolding len by arith
    with l2 l3 show "jsonKey_of (Parcel ! n) \<noteq> jsonKey_of (Parcel ! 1) \<and>
       \<not> below (jsonKey_of (Parcel ! n)) (jsonKey_of (Parcel ! 1))" by blast
  qed
  have later3: "\<forall>n. 3 < n \<and> n < length Parcel \<longrightarrow>
       jsonKey_of (Parcel ! n) \<noteq> jsonKey_of (Parcel ! 3) @ ''.'' @ ''city'' \<and>
       \<not> below (jsonKey_of (Parcel ! n)) (jsonKey_of (Parcel ! 3) @ ''.'' @ ''city'')"
  proof (intro allI impI)
    fix n :: nat assume "3 < n \<and> n < length Parcel"
    then have False unfolding len by arith
    then show "jsonKey_of (Parcel ! n) \<noteq> jsonKey_of (Parcel ! 3) @ ''.'' @ ''city'' \<and>
       \<not> below (jsonKey_of (Parcel ! n)) (jsonKey_of (Parcel ! 3) @ ''.'' @ ''city'')" ..
  qed
  have c: "StructToM rev (Some (ftype (Parcel ! 3), ?vs ! 3)) = Ok [(''city'', Some (TString, VString ''Rome''))]"
    by code_simp
  have ck: "map_of [(''city'', Some (TString, VString ''Rome''))] ''city'' = Some (Some (TString, VString ''Rome''))"
    by simp
  note t1 = C7_external_key_resolution[where f = "Field ''ID'' ''_id,omitempty'' TString"
      and ord = rev and fs = Parcel and vs = ?vs and m = ?m and j = "JObject ?data" and data = ?data
      and i = 1]
  note t3 = C7_external_key_resolution[where f = "Field ''Name'' '''' TString"
      and ord = rev and fs = Parcel and vs = ?vs and m = ?m and j = "JObject ?data" and data = ?data
      and i = 3 and m' = "[(''city'', Some (TString, VString ''Rome''))]" and ck = "''city''"
      and y = "Some (TString, VString ''Rome'')"]
  note t2 = C7_external_key_resolution[where f = "Field ''Count'' '',omitempty'' TInt"
      and ord = rev and fs = "[]" and vs = "[]"]
  from t1 have a1: "jsonKey_of (Field ''ID'' ''_id,omitempty'' TString) = ''_id''" by simp
  from t3 have a2: "jsonKey_of (Field ''Name'' '''' TString) = ''Name''" by simp
  from t2 have a3: "jsonKey_of (Field ''Count'' '',omitempty'' TInt) = ''Count''" by simp
  from t1 s j d i1 p1 nz1 k1 later1
  have "map_of ?m (jsonKey_of (Parcel ! 1)) = Some (Interface (ftype (Parcel ! 1)) (?vs ! 1))"
    by blast
  then have b1: "map_of ?m ''Name'' = Some (Some (TString, VString ''Widget''))"
    unfolding key1 by (simp add: Parcel_def)
  from t3 s j d i3 p3 nz3 k3 range_ok_rev c ck later3
  have "map_of ?m (jsonKey_of (Parcel ! 3) @ ''.'' @ ''city'') = Some (Some (TString, VString ''Rome''))"
    by blast
  then have b3: "map_of ?m ''address.city'' = Some (Some (TString, VString ''Rome''))"
    unfolding key3 by simp
  from a1 a2 a3 s b1 b3 show ?thesis by blast
qed





































subsection \<open>The round trip through \<^verbatim>\<open>CastStruct\<close>\<close>














lemma plain_value_plain:
  "plain_value t v \<Longrightarrow> plain t"
  "plain_values fs vs \<Longrightarrow> plain_fields fs"
  by (induction t v and fs vs rule: plain_value_plain_values.induct)
     (auto split: gval.splits list.splits)





















end
